theory Spec2Isabelle
  imports Complex_Main
begin

section \<open>Data model of the resolved configuration\<close>

text \<open>
  A \<open>WPSource\<close> is the descriptor of one source (the WordPress core, a plugin or a
  theme).  The JavaScript object has the string field \<open>type\<close> (\<open>'local'\<close>, \<open>'git'\<close>
  or \<open>'zip'\<close>), the destination \<open>path\<close>, the optional \<open>url\<close> and \<open>ref\<close>, the
  \<open>basename\<close> and, for a core source, \<open>testsPath\<close>.  An absent field reads as
  \<open>undefined\<close> in JavaScript and is \<open>None\<close> here.
\<close>

record WPSource =
  type :: string
  path :: string
  url :: "string option"
  ref :: "string option"
  basename :: string
  testsPath :: "string option"

text \<open>
  A \<open>WPServiceConfig\<close> is the configuration of one environment.  \<open>mappings\<close> is a
  JavaScript object read with \<open>Object.entries\<close>: an association list in insertion
  order.  A \<open>coreSource\<close> of \<open>null\<close> is \<open>None\<close>; the code only ever tests it for
  truthiness.
\<close>

record WPServiceConfig =
  port :: int
  coreSource :: "WPSource option"
  pluginSources :: "WPSource list"
  themeSources :: "WPSource list"
  mappings :: "(string \<times> WPSource) list"

record WPEnvs =
  development :: WPServiceConfig
  tests :: WPServiceConfig

text \<open>
  The top-level object also reads a property \<open>coreSource\<close> of its own, once with
  \<open>=== null\<close> (in \<open>start\<close>) and twice with \<open>!\<close> (in \<open>buildDockerComposeConfig\<close>).  The
  two tests differ on a property that is absent, so the three cases are kept apart.
\<close>

datatype 'a js_property = Undefined | Null | Val 'a

record WPConfig =
  configDirectoryPath :: string
  workDirectoryPath :: string
  dockerComposeConfigPath :: string
  detectedLocalConfig :: bool
  debug :: bool
  topCoreSource :: "WPSource js_property"
  env :: WPEnvs

definition Object_values :: "WPEnvs \<Rightarrow> WPServiceConfig list" where
  "Object_values e = [development e, tests e]"

section \<open>download-sources: which sources are downloaded\<close>

text \<open>
  \<open>addedSources\<close> is a plain object used as a set of urls.  Reading
  \<open>addedSources[u]\<close> finds an own property, or else a property inherited from
  \<open>Object.prototype\<close>; all twelve inherited ones are truthy.
\<close>

definition Object_prototype_keys :: "string list" where
  "Object_prototype_keys =
    [''constructor'', ''__defineGetter__'', ''__defineSetter__'', ''hasOwnProperty'',
     ''__lookupGetter__'', ''__lookupSetter__'', ''isPrototypeOf'',
     ''propertyIsEnumerable'', ''toString'', ''valueOf'', ''__proto__'',
     ''toLocaleString'']"

definition js_get_truthy :: "(string \<rightharpoonup> bool) \<Rightarrow> string \<Rightarrow> bool" where
  "js_get_truthy obj k =
    (case obj k of Some b \<Rightarrow> b | None \<Rightarrow> k \<in> set Object_prototype_keys)"

text \<open>
  \<open>addSource\<close>: \<open>if ( source && source.url && ! addedSources[ source.url ] )\<close>.
  An empty string is falsy.  The state is the pair of \<open>sources\<close> and \<open>addedSources\<close>.
\<close>

definition addSource ::
  "WPSource option \<Rightarrow> WPSource list \<times> (string \<rightharpoonup> bool) \<Rightarrow> WPSource list \<times> (string \<rightharpoonup> bool)"
where
  "addSource source st =
    (case source of
       None \<Rightarrow> st
     | Some s \<Rightarrow>
        (case url s of
           None \<Rightarrow> st
         | Some u \<Rightarrow>
            if u \<noteq> [] \<and> \<not> js_get_truthy (snd st) u
            then (fst st @ [s], (snd st)(u \<mapsto> True))
            else st))"

definition forEach_addSource ::
  "WPSource option list \<Rightarrow> WPSource list \<times> (string \<rightharpoonup> bool) \<Rightarrow> WPSource list \<times> (string \<rightharpoonup> bool)"
where
  "forEach_addSource xs st = foldl (\<lambda>acc x. addSource x acc) st xs"

text \<open>
  The descriptors in the order in which the loop over \<open>Object.values( config.env )\<close>
  hands them to \<open>addSource\<close>: per environment the plugins, the themes, then the core.
\<close>

definition env_sources :: "WPServiceConfig \<Rightarrow> WPSource option list" where
  "env_sources e = map Some (pluginSources e) @ map Some (themeSources e) @ [coreSource e]"

definition offered_sources :: "WPConfig \<Rightarrow> WPSource option list" where
  "offered_sources config = concat (map env_sources (Object_values (env config)))"

text \<open>The array \<open>sources\<close> that \<open>downloadSources\<close> maps \<open>downloadSource\<close> over.\<close>

definition sources_to_download :: "WPConfig \<Rightarrow> WPSource list" where
  "sources_to_download config =
    fst (foldl (\<lambda>acc e.
           addSource (coreSource e)
             (forEach_addSource (map Some (themeSources e))
               (forEach_addSource (map Some (pluginSources e)) acc)))
         ([], Map.empty) (Object_values (env config)))"

text \<open>All descriptors of a configuration, in the same order, without the nulls.\<close>

definition somes :: "'a option list \<Rightarrow> 'a list" where
  "somes xs = concat (map (\<lambda>x. case x of None \<Rightarrow> [] | Some s \<Rightarrow> [s]) xs)"

definition all_descriptors :: "WPConfig \<Rightarrow> WPSource list" where
  "all_descriptors config = somes (offered_sources config)"

text \<open>
  A url that passes the guard of \<open>addSource\<close> the first time it is seen: a non-empty
  string that is not the name of an inherited property.
\<close>

definition fresh_key :: "string \<Rightarrow> bool" where
  "fresh_key u = (u \<noteq> [] \<and> u \<notin> set Object_prototype_keys)"

definition collected :: "WPSource option list \<Rightarrow> WPSource list \<times> (string \<rightharpoonup> bool)" where
  "collected xs = forEach_addSource xs ([], Map.empty)"


text \<open>
  Modelled from the spec: the SourceDescriptor resolver of \<open>lib/config.js\<close>, which is not
  among the sources and builds the descriptors of a configuration.  The spec: the
  destinationPath of a git source is \<open><workDir>/<stable-hash-of-url-and-ref>\<close>, that of a
  zip source \<open><workDir>/<stable-hash-of-url>\<close>; "destinationPath is a pure function of
  (type, url, ref)".  What the proofs need of it: among the descriptors that have a url,
  two with one destination path have one url.
\<close>

definition paths_determine_urls :: "WPConfig \<Rightarrow> bool" where
  "paths_determine_urls config =
    (\<forall>d\<in>set (all_descriptors config). \<forall>d'\<in>set (all_descriptors config).
       url d \<noteq> None \<and> url d' \<noteq> None \<and> path d = path d' \<longrightarrow> url d = url d')"
section \<open>build-docker-compose-config: the generated topology\<close>

text \<open>
  The characters of which \<open>Number::toString\<close> makes the string of a finite number: the
  decimal digits, the point, the \<open>e\<close> of the exponent and the two signs.
\<close>

datatype number_char = Digit nat | Point | Exponent | Plus | Minus

text \<open>
  What the module takes from Node: \<open>fs.readdirSync\<close> (\<open>None\<close> when it throws),
  \<open>path.join\<close>, \<open>__dirname\<close>, and what \<open>Number::toString\<close> gives for an integer
  outside the safe range.
\<close>

record node =
  readdirSync :: "string \<Rightarrow> string list option"
  path_join :: "string \<Rightarrow> string \<Rightarrow> string"
  dirname :: string
  Number_toString :: "int \<Rightarrow> number_char list"

text \<open>A template literal prints an absent value as \<open>undefined\<close>.\<close>

definition js_template :: "string option \<Rightarrow> string" where
  "js_template v = (case v of None \<Rightarrow> ''undefined'' | Some s \<Rightarrow> s)"

text \<open>
  A template literal prints a number with \<open>Number::toString\<close>.  An integer within the
  safe range, of magnitude at most \<open>2^53 - 1\<close>, is printed in decimal.  Beyond it the
  digits are the shortest that identify the double, in exponent form from \<open>10^21\<close>
  (\<open>1e+21\<close>); they are left to Node.
\<close>

definition MAX_SAFE_INTEGER :: int where
  "MAX_SAFE_INTEGER = 9007199254740991"

definition digit_char :: "nat \<Rightarrow> char" where
  "digit_char d = ''0123456789'' ! d"

fun digits :: "nat \<Rightarrow> string" where
  "digits n =
    (if n < 10 then [digit_char n] else digits (n div 10) @ [digit_char (n mod 10)])"

declare digits.simps [simp del]

fun char_of_number_char :: "number_char \<Rightarrow> char" where
  "char_of_number_char (Digit d) = digit_char (d mod 10)"
| "char_of_number_char Point = CHR ''.''"
| "char_of_number_char Exponent = CHR ''e''"
| "char_of_number_char Plus = CHR ''+''"
| "char_of_number_char Minus = CHR ''-''"

definition js_string_of_int :: "node \<Rightarrow> int \<Rightarrow> string" where
  "js_string_of_int nd i =
    (if \<bar>i\<bar> \<le> MAX_SAFE_INTEGER
     then (if i < 0 then ''-'' @ digits (nat (- i)) else digits (nat i))
     else map char_of_number_char (Number_toString nd i))"

definition getMounts :: "WPServiceConfig \<Rightarrow> string \<Rightarrow> string list" where
  "getMounts config wordpressDefault =
    (let directoryMounts =
           map (\<lambda>(wpDir, source). path source @ '':/var/www/html/'' @ wpDir) (mappings config);
         pluginMounts =
           map (\<lambda>source. path source @ '':/var/www/html/wp-content/plugins/'' @ basename source)
             (pluginSources config);
         themeMounts =
           map (\<lambda>source. path source @ '':/var/www/html/wp-content/themes/'' @ basename source)
             (themeSources config);
         coreMount =
           (case coreSource config of Some s \<Rightarrow> path s | None \<Rightarrow> wordpressDefault)
             @ '':/var/www/html''
     in [coreMount] @ directoryMounts @ pluginMounts @ themeMounts)"

text \<open>
  Modelled from the spec: \<open>hasSameCoreSource\<close> of \<open>lib/wordpress.js\<close>, which is not
  among the sources.  The spec: two EnvironmentConfigs are "source-equivalent" iff their
  coreSource descriptors compare equal by destinationPath.  The one call site passes
  the two environments and has already checked that the first has a core source.
\<close>

definition hasSameCoreSource :: "WPServiceConfig list \<Rightarrow> bool" where
  "hasSameCoreSource envs =
    (\<forall>e\<in>set envs. map_option path (coreSource e) = map_option path (coreSource (hd envs)))"

record service =
  depends_on :: "string list"
  image' :: "string option"
  build :: "string option"
  ports :: "string list"
  environment :: "(string \<times> string) list"
  volumes :: "string list"
  user :: "string option"

record compose_services =
  mysql :: service
  wordpress :: service
  tests_wordpress :: service
  cli :: service
  tests_cli :: service
  composer :: service
  phpunit :: service

text \<open>\<open>top_volumes\<close> holds the keys of the top-level \<open>volumes\<close> object, in order.\<close>

record compose =
  version :: string
  services :: compose_services
  top_volumes :: "string list"

text \<open>
  The mounts that replace the normal core mount of the tests environment when both
  environments share a core source (the argument of \<open>testsMounts.unshift\<close>).
\<close>

definition sharedCoreMounts :: "node \<Rightarrow> WPSource \<Rightarrow> string list option" where
  "sharedCoreMounts nd wpSource =
    (if type wpSource = ''local''
     then (case readdirSync nd (path wpSource) of
             None \<Rightarrow> None
           | Some filenames \<Rightarrow>
               Some ([js_template (testsPath wpSource) @ '':/var/www/html''] @
                 map (\<lambda>filename.
                        path_join nd (path wpSource) filename @ '':/var/www/html/'' @ filename)
                   (filter (\<lambda>filename. filename \<noteq> ''wp-config.php'' \<and>
                        filename \<noteq> ''wp-config-sample.php'' \<and> filename \<noteq> ''wp-content'')
                      filenames)))
     else Some [js_template (testsPath wpSource) @ '':/var/www/html''])"

text \<open>
  The array \<open>testsMounts\<close> after the \<open>if\<close>: the mounts of the tests environment, with
  the normal core mount replaced (\<open>shift\<close>, then \<open>unshift\<close>) when the development
  environment has a core source and both environments have the same one.
\<close>

definition testsMounts_of :: "node \<Rightarrow> WPConfig \<Rightarrow> string list option" where
  "testsMounts_of nd config =
    (case coreSource (development (env config)) of
       Some wpSource \<Rightarrow>
         if hasSameCoreSource [development (env config), tests (env config)]
         then map_option (\<lambda>front. front @ tl (getMounts (tests (env config)) ''tests-wordpress''))
                (sharedCoreMounts nd wpSource)
         else Some (getMounts (tests (env config)) ''tests-wordpress'')
     | None \<Rightarrow> Some (getMounts (tests (env config)) ''tests-wordpress''))"

definition buildDockerComposeConfig :: "node \<Rightarrow> WPConfig \<Rightarrow> compose option" where
  "buildDockerComposeConfig nd config =
    (let developmentMounts = getMounts (development (env config)) ''wordpress'';
         testsMountsResult = testsMounts_of nd config;
         developmentPorts =
           ''${WP_ENV_PORT:-'' @ js_string_of_int nd (port (development (env config))) @ ''}:80'';
         testsPorts =
           ''${WP_ENV_TESTS_PORT:-'' @ js_string_of_int nd (port (tests (env config))) @ ''}:80'';
         cliUser = ''33:33'';
         noCoreSource = (case topCoreSource config of Val s \<Rightarrow> False | _ \<Rightarrow> True)
     in case testsMountsResult of
          None \<Rightarrow> None
        | Some testsMounts \<Rightarrow>
            Some \<lparr>version = ''3.7'',
              services =
               \<lparr>mysql =
                  \<lparr>depends_on = [], image' = Some ''mariadb'', build = None, ports = [''3306''],
                   environment = [(''MYSQL_ALLOW_EMPTY_PASSWORD'', ''yes'')],
                   volumes = [''mysql:/var/lib/mysql''], user = None\<rparr>,
                wordpress =
                  \<lparr>depends_on = [''mysql''], image' = None,
                   build = Some (dirname nd @ ''/wordpress-xdebug''),
                   ports = [developmentPorts],
                   environment = [(''WORDPRESS_DB_NAME'', ''wordpress'')],
                   volumes = developmentMounts, user = None\<rparr>,
                tests_wordpress =
                  \<lparr>depends_on = [''mysql''], image' = Some ''wordpress'', build = None,
                   ports = [testsPorts],
                   environment = [(''WORDPRESS_DB_NAME'', ''tests-wordpress'')],
                   volumes = testsMounts, user = None\<rparr>,
                cli =
                  \<lparr>depends_on = [''wordpress''], image' = Some ''wordpress:cli'', build = None,
                   ports = [], environment = [], volumes = developmentMounts,
                   user = Some cliUser\<rparr>,
                tests_cli =
                  \<lparr>depends_on = [''tests-wordpress''], image' = Some ''wordpress:cli'',
                   build = None, ports = [], environment = [], volumes = testsMounts,
                   user = Some cliUser\<rparr>,
                composer =
                  \<lparr>depends_on = [], image' = Some ''composer'', build = None, ports = [],
                   environment = [], volumes = [configDirectoryPath config @ '':/app''],
                   user = None\<rparr>,
                phpunit =
                  \<lparr>depends_on = [''tests-wordpress''],
                   image' = Some ''wordpressdevelop/phpunit:${LOCAL_PHP-latest}'',
                   build = None, ports = [],
                   environment =
                     [(''LOCAL_DIR'', ''html''),
                      (''WP_PHPUNIT__TESTS_CONFIG'', ''/var/www/html/phpunit-wp-config.php'')],
                   volumes = testsMounts @ [''phpunit-uploads:/var/www/html/wp-content/uploads''],
                   user = None\<rparr>\<rparr>,
              top_volumes =
                (if noCoreSource then [''wordpress''] else []) @
                (if noCoreSource then [''tests-wordpress''] else []) @
                [''mysql'', ''phpunit-uploads'']\<rparr>)"


section \<open>docker-compose: variable substitution in the generated file\<close>



section \<open>Effects: external calls, their outcomes and the trace\<close>

text \<open>
  The asynchronous code is modelled by explicit state passing.  Everything the program
  asks of the outside world (docker-compose, the file system, NodeGit, the network, the
  modules of the package that are not among the sources) is an \<open>action\<close>.  A \<open>world\<close>
  fixes the outcome of the \<open>n\<close>-th invocation of each action, so that a retry can fail
  first and succeed later.  Spinner texts are presentation and are left out.
\<close>

datatype envName = Development | Tests

datatype action =
    FsAccess string
  | InquirerPrompt
  | Rimraf string
  | InitConfig
  | Stop
  | DockerUpOne string
  | DockerUpMany "string list"
  | SetupWordPressDirectories
  | MakeContentDirectoriesWritable envName
  | CheckDatabaseConnection
  | ConfigureWordPress envName
  | Sleep nat
  | SetCache string string string
  | GitClone "string option" string
  | GitOpen string
  | GitGetRemote string
  | GitFetch string "string option"
  | GitDisconnect string
  | GitGetReference string "string option"
  | GitCheckoutRef string
  | GitSetHeadDetached string "string option"
  | GotDownload "string option" string
  | ExtractZip string string
  | Readdir string
  | CopyDir string string

datatype error = Failed action | RetriesExhausted

text \<open>
  A JavaScript number as far as the progress arithmetic needs it: the quotient of two
  counts is a rational, \<open>Infinity\<close> or \<open>NaN\<close>.  (The double nearest to the rational is
  what JavaScript holds; rounding is monotone and keeps \<open>0\<close> and \<open>1\<close>.)
\<close>

datatype jsnum = Num rat | PosInfinity | NaN

definition js_div :: "nat \<Rightarrow> nat \<Rightarrow> jsnum" where
  "js_div a b =
    (if b = 0 then (if a = 0 then NaN else PosInfinity) else Num (of_nat a / of_nat b))"

definition in_unit_interval :: "jsnum \<Rightarrow> bool" where
  "in_unit_interval v = (case v of Num q \<Rightarrow> 0 \<le> q \<and> q \<le> 1 | _ \<Rightarrow> False)"

text \<open>
  The trace: a call of an action, a call of a progress setter
  (\<open>getProgressSetter( id )( value )\<close>), or the branches of a \<open>Promise.all\<close>.
\<close>

datatype event = Call action | Progress string jsnum | Par "event list list"

record world =
  succeeds :: "action \<Rightarrow> nat \<Rightarrow> bool"
  transferProgress :: "action \<Rightarrow> nat \<Rightarrow> (nat \<times> nat \<times> nat) list"
  downloadProgress :: "action \<Rightarrow> nat \<Rightarrow> jsnum list"
  readdir_result :: "string \<Rightarrow> string list"
  cwd_basename :: string
  yesDelete :: bool
  resolved_config :: WPConfig
  md5 :: "WPConfig \<Rightarrow> string"
  retry_default_delay :: nat
  node_env :: node

text \<open>
  The state: the trace so far, how often each action has been invoked, and the cache
  files (work directory and key to value).
\<close>

record state =
  log :: "event list"
  calls :: "action \<Rightarrow> nat"
  cache :: "string \<times> string \<rightharpoonup> string"

definition fresh_state :: "(string \<times> string \<rightharpoonup> string) \<Rightarrow> state" where
  "fresh_state c = \<lparr>log = [], calls = (\<lambda>a. 0), cache = c\<rparr>"

type_synonym 'a io = "state \<Rightarrow> (error + 'a) \<times> state"

definition io_return :: "'a \<Rightarrow> 'a io" where
  "io_return x = (\<lambda>s. (Inr x, s))"

definition io_throw :: "error \<Rightarrow> 'a io" where
  "io_throw e = (\<lambda>s. (Inl e, s))"

text \<open>\<open>await m; f\<close>: a rejection of \<open>m\<close> ends the function.\<close>

definition io_bind :: "'a io \<Rightarrow> ('a \<Rightarrow> 'b io) \<Rightarrow> 'b io" where
  "io_bind m f = (\<lambda>s. case m s of (Inl e, s') \<Rightarrow> (Inl e, s') | (Inr x, s') \<Rightarrow> f x s')"

text \<open>\<open>try { await m } catch ( e ) { h }\<close> and \<open>m.catch( h )\<close>.\<close>

definition io_catch :: "'a io \<Rightarrow> (error \<Rightarrow> 'a io) \<Rightarrow> 'a io" where
  "io_catch m h = (\<lambda>s. case m s of (Inl e, s') \<Rightarrow> h e s' | (Inr x, s') \<Rightarrow> (Inr x, s'))"

definition emit :: "event \<Rightarrow> unit io" where
  "emit ev = (\<lambda>s. (Inr (), s\<lparr>log := log s @ [ev]\<rparr>))"

definition call :: "world \<Rightarrow> action \<Rightarrow> unit io" where
  "call w a =
    (\<lambda>s. (if succeeds w a (calls s a) then Inr () else Inl (Failed a),
          s\<lparr>log := log s @ [Call a], calls := (calls s)(a := Suc (calls s a))\<rparr>))"

definition sleep :: "nat \<Rightarrow> unit io" where
  "sleep ms = emit (Call (Sleep ms))"

text \<open>
  \<open>Promise.all( [ m1, ..., mn ] )\<close>: every branch is started, whatever becomes of the
  others, and the result is a rejection as soon as one branch rejects.  The branches
  are run here one after the other, each on a trace of its own, and the trace records
  them side by side under \<open>Par\<close>; how the branches interleave in time is not modelled.
  Of several rejections the first in array order is reported.
\<close>

fun run_all :: "'a io list \<Rightarrow> state \<Rightarrow> ((error + 'a) list \<times> event list list) \<times> state" where
  "run_all [] s = (([], []), s)"
| "run_all (m # ms) s =
    (case m (s\<lparr>log := []\<rparr>) of
       (r, s1) \<Rightarrow>
         (case run_all ms s1 of
            ((rs, ls), s2) \<Rightarrow> ((r # rs, log s1 # ls), s2)))"

fun collect_results :: "(error + 'a) list \<Rightarrow> error + 'a list" where
  "collect_results [] = Inr []"
| "collect_results (Inl e # rs) = Inl e"
| "collect_results (Inr x # rs) =
    (case collect_results rs of Inl e \<Rightarrow> Inl e | Inr xs \<Rightarrow> Inr (x # xs))"

definition Promise_all :: "'a io list \<Rightarrow> 'a list io" where
  "Promise_all ms =
    (\<lambda>s. case run_all ms s of
            ((rs, ls), s') \<Rightarrow> (collect_results rs, s'\<lparr>log := log s @ [Par ls]\<rparr>))"

text \<open>The actions of a trace, the branches of a \<open>Par\<close> flattened in array order.\<close>

fun actions_of :: "event \<Rightarrow> action list" where
  "actions_of (Call a) = [a]"
| "actions_of (Progress i v) = []"
| "actions_of (Par ls) = concat (map (\<lambda>l. concat (map actions_of l)) ls)"

definition actions :: "event list \<Rightarrow> action list" where
  "actions evs = concat (map actions_of evs)"

text \<open>The values a progress setter was called with, in order (outside any \<open>Par\<close>).\<close>

fun progress_of :: "event \<Rightarrow> jsnum list" where
  "progress_of (Progress i v) = [v]"
| "progress_of ev = []"

definition progress_values :: "event list \<Rightarrow> jsnum list" where
  "progress_values evs = concat (map progress_of evs)"

text \<open>
  Modelled from the spec: \<open>retry\<close> of \<open>lib/retry.js\<close>, which is not among the sources.
  The spec: a generic \<open>retry(operation, maxAttempts, delay)\<close> combinator returning a
  result-or-exhausted outcome; "retry up to 30 times at 1-second intervals"; "up to 2
  attempts".  The operation is attempted up to \<open>times\<close> times, with \<open>delay\<close> between two
  attempts; the rejection of the last attempt is the outcome when all fail.
\<close>

fun retry :: "unit io \<Rightarrow> nat \<Rightarrow> nat \<Rightarrow> unit io" where
  "retry act 0 delay = io_throw RetriesExhausted"
| "retry act (Suc 0) delay = act"
| "retry act (Suc (Suc n)) delay =
    io_catch act (\<lambda>e. io_bind (sleep delay) (\<lambda>_. retry act (Suc n) delay))"

text \<open>
  Modelled from the spec: \<open>didCacheChange\<close> and \<open>setCache\<close> of \<open>lib/cache.js\<close>, which
  is not among the sources.  The spec: a cache entry is a \<open>{ key, value }\<close> pair
  persisted under the work directory; a read or write is scoped to one work directory
  and keyed by a symbolic name; absence of an entry is equivalent to "value unknown",
  not an error.  Writing the cache file is an external call that can fail.
\<close>

definition didCacheChange :: "string \<Rightarrow> string \<Rightarrow> string \<Rightarrow> bool io" where
  "didCacheChange key v workDir = (\<lambda>s. (Inr (cache s (workDir, key) \<noteq> Some v), s))"

definition setCache :: "world \<Rightarrow> string \<Rightarrow> string \<Rightarrow> string \<Rightarrow> unit io" where
  "setCache w key v workDir =
    io_bind (call w (SetCache key v workDir))
      (\<lambda>_ s. (Inr (), s\<lparr>cache := (cache s)((workDir, key) \<mapsto> v)\<rparr>))"

section \<open>download-sources: downloading one source\<close>

text \<open>
  A NodeGit clone or fetch with the \<open>transferProgress\<close> callback: each report
  \<open>(receivedObjects, indexedObjects, totalObjects)\<close> delivered during the call makes the
  callback call \<open>onProgress\<close> with
  \<open>( receivedObjects + indexedObjects ) / ( totalObjects * 2 )\<close>.
\<close>

definition call_with_transferProgress :: "world \<Rightarrow> string \<Rightarrow> action \<Rightarrow> unit io" where
  "call_with_transferProgress w i a =
    io_bind (\<lambda>s. (Inr (transferProgress w a (calls s a)), s))
      (\<lambda>reports. \<lambda>s.
        (if succeeds w a (calls s a) then Inr () else Inl (Failed a),
         s\<lparr>log := log s @ [Call a] @
                  map (\<lambda>(received, indexed, total).
                         Progress i (js_div (received + indexed) (total * 2))) reports,
           calls := (calls s)(a := Suc (calls s a))\<rparr>))"

text \<open>
  \<open>downloadGitSource\<close>.  \<open>downloadSources\<close> passes no \<open>debug\<close> option, so \<open>log\<close> is
  the function that does nothing.
\<close>

definition downloadGitSource :: "world \<Rightarrow> WPSource \<Rightarrow> unit io" where
  "downloadGitSource w source =
    io_bind (emit (Progress (basename source) (Num 0))) (\<lambda>_.
    io_bind (io_catch
               (call_with_transferProgress w (basename source)
                  (GitClone (url source) (path source)))
               (\<lambda>e. call w (GitOpen (path source)))) (\<lambda>_.
    io_bind (call w (GitGetRemote (path source))) (\<lambda>_.
    io_bind (call_with_transferProgress w (basename source)
               (GitFetch (path source) (ref source))) (\<lambda>_.
    io_bind (call w (GitDisconnect (path source))) (\<lambda>_.
    io_bind (io_catch
               (io_bind
                  (io_catch (call w (GitGetReference (path source) (Some ''FETCH_HEAD'')))
                     (\<lambda>e. call w (GitGetReference (path source) (ref source))))
                  (\<lambda>_. call w (GitCheckoutRef (path source))))
               (\<lambda>e. call w (GitSetHeadDetached (path source) (ref source)))) (\<lambda>_.
    emit (Progress (basename source) (Num 1))))))))"

text \<open>
  The download of a zip file with its \<open>downloadProgress\<close> events, each of which calls
  \<open>onProgress( percent )\<close>.
\<close>

definition call_with_downloadProgress :: "world \<Rightarrow> string \<Rightarrow> action \<Rightarrow> unit io" where
  "call_with_downloadProgress w i a =
    (\<lambda>s. (if succeeds w a (calls s a) then Inr () else Inl (Failed a),
          s\<lparr>log := log s @ [Call a] @ map (Progress i) (downloadProgress w a (calls s a)),
            calls := (calls s)(a := Suc (calls s a))\<rparr>))"

text \<open>
  \<open>downloadZipSource\<close>.  In the array given to \<open>Promise.all\<close> the removal of the zip file
  is started first, then the directory is read and the copies are started.
\<close>

definition downloadZipSource :: "world \<Rightarrow> WPSource \<Rightarrow> unit io" where
  "downloadZipSource w source =
    (let zipName = path source @ ''.zip''; dirName = path source @ ''.temp'' in
     io_bind (emit (Progress (basename source) (Num 0))) (\<lambda>_.
     io_bind (call_with_downloadProgress w (basename source)
                (GotDownload (url source) zipName)) (\<lambda>_.
     io_bind (call w (ExtractZip zipName dirName)) (\<lambda>_.
     io_bind (Promise_all
                [call w (Rimraf zipName),
                 io_bind (call w (Readdir dirName)) (\<lambda>_.
                 io_bind (Promise_all
                            (map (\<lambda>file. call w (CopyDir (path_join (node_env w) dirName file)
                                                   (path source)))
                               (readdir_result w dirName)))
                   (\<lambda>_. io_return ()))]) (\<lambda>_.
     io_bind (call w (Rimraf dirName)) (\<lambda>_.
     emit (Progress (basename source) (Num 1))))))))"

definition downloadSource :: "world \<Rightarrow> WPSource \<Rightarrow> unit io" where
  "downloadSource w source =
    (if type source = ''git'' then downloadGitSource w source
     else if type source = ''zip'' then downloadZipSource w source
     else io_return ())"

definition downloadSources :: "world \<Rightarrow> WPConfig \<Rightarrow> unit io" where
  "downloadSources w config =
    io_bind (Promise_all (map (downloadSource w) (sources_to_download config)))
      (\<lambda>_. io_return ())"

section \<open>commands/start\<close>

definition CONFIG_CACHE_KEY :: string where
  "CONFIG_CACHE_KEY = ''config_checksum''"

text \<open>
  \<open>checkForLegacyInstall\<close>: an install whose \<open>fs.access\<close> rejects is spliced out of the
  list; if one is left the user is asked, and on \<open>yesDelete\<close> the installs are removed.
\<close>

definition checkForLegacyInstall :: "world \<Rightarrow> unit io" where
  "checkForLegacyInstall w =
    (let installs = [''../'' @ cwd_basename w @ ''-wordpress'',
                     ''../'' @ cwd_basename w @ ''-tests-wordpress''] in
     io_bind (Promise_all
                (map (\<lambda>install.
                        io_catch (io_bind (call w (FsAccess install)) (\<lambda>_. io_return True))
                          (\<lambda>e. io_return False))
                   installs)) (\<lambda>found.
     let remaining = map fst (filter snd (zip installs found)) in
     if remaining = [] then io_return ()
     else
       io_bind (call w InquirerPrompt) (\<lambda>_.
       if yesDelete w
       then io_bind (Promise_all (map (\<lambda>install. call w (Rimraf install)) remaining))
              (\<lambda>_. io_return ())
       else io_return ())))"

text \<open>
  The modules of the package that \<open>start\<close> calls and that are not among the sources are
  external calls: \<open>initConfig\<close> (which resolves to the configuration of the world),
  \<open>stop\<close>, \<open>setupWordPressDirectories\<close>, \<open>makeContentDirectoriesWritable\<close>,
  \<open>checkDatabaseConnection\<close>, \<open>configureWordPress\<close>; and so are the two docker-compose
  calls.
\<close>

definition initConfig :: "world \<Rightarrow> WPConfig io" where
  "initConfig w = io_bind (call w InitConfig) (\<lambda>_. io_return (resolved_config w))"

definition start :: "world \<Rightarrow> bool \<Rightarrow> unit io" where
  "start w update =
    io_bind (checkForLegacyInstall w) (\<lambda>_.
    io_bind (initConfig w) (\<lambda>config.
    let configHash = md5 w config; workDirectoryPath = workDirectoryPath config in
    io_bind (if update then io_return True
             else didCacheChange CONFIG_CACHE_KEY configHash workDirectoryPath)
      (\<lambda>shouldConfigureWp.
    io_bind (if shouldConfigureWp then call w Stop else io_return ()) (\<lambda>_.
    io_bind (Promise_all
               [call w (DockerUpOne ''mysql''),
                if shouldConfigureWp then downloadSources w config else io_return ()]) (\<lambda>_.
    io_bind (if shouldConfigureWp then call w SetupWordPressDirectories else io_return ())
      (\<lambda>_.
    io_bind (call w (DockerUpMany [''wordpress'', ''tests-wordpress''])) (\<lambda>_.
    if shouldConfigureWp then
      io_bind (if topCoreSource config = Null
               then io_bind (Promise_all
                               [call w (MakeContentDirectoriesWritable Development),
                                call w (MakeContentDirectoriesWritable Tests)])
                      (\<lambda>_. io_return ())
               else io_return ()) (\<lambda>_.
      io_bind (io_catch (call w CheckDatabaseConnection)
                 (\<lambda>error.
                    io_bind (retry (call w CheckDatabaseConnection) 30 1000) (\<lambda>_.
                    sleep 4000))) (\<lambda>_.
      io_bind (Promise_all
                 [retry (call w (ConfigureWordPress Development)) 2 (retry_default_delay w),
                  retry (call w (ConfigureWordPress Tests)) 2 (retry_default_delay w)]) (\<lambda>_.
      setCache w CONFIG_CACHE_KEY configHash workDirectoryPath)))
    else io_return ())))))))"

section \<open>Notions used in the proofs about \<open>start\<close>\<close>

text \<open>
  The actions of the configuration phase of \<open>start\<close> (the body of the last
  \<open>if ( shouldConfigureWp )\<close>); every other action belongs to the steps before it.
\<close>

fun is_configuring :: "action \<Rightarrow> bool" where
  "is_configuring (MakeContentDirectoriesWritable e) = True"
| "is_configuring CheckDatabaseConnection = True"
| "is_configuring (ConfigureWordPress e) = True"
| "is_configuring (Sleep ms) = True"
| "is_configuring (SetCache k v d) = True"
| "is_configuring a = False"

text \<open>The actions of \<open>checkForLegacyInstall\<close>.\<close>

fun is_legacy_check :: "action \<Rightarrow> bool" where
  "is_legacy_check (FsAccess p) = True"
| "is_legacy_check InquirerPrompt = True"
| "is_legacy_check (Rimraf p) = True"
| "is_legacy_check a = False"

text \<open>
  \<open>frames w A m\<close>: the computation \<open>m\<close> leaves the cache alone, invokes only actions of
  \<open>A\<close>, appends its events to the trace, and is not rejected when every invocation of
  an action of \<open>A\<close> succeeds.
\<close>

definition frames :: "world \<Rightarrow> action set \<Rightarrow> 'a io \<Rightarrow> bool" where
  "frames w A m =
    (\<forall>s. cache (snd (m s)) = cache s \<and>
         (\<forall>a. a \<notin> A \<longrightarrow> calls (snd (m s)) a = calls s a) \<and>
         (\<exists>evs. log (snd (m s)) = log s @ evs \<and> set (actions evs) \<subseteq> A) \<and>
         ((\<forall>a\<in>A. \<forall>n. succeeds w a n) \<longrightarrow> \<not> isl (fst (m s))))"

text \<open>
  The two halves of \<open>start\<close>: everything up to and including the start of the WordPress
  services, which yields \<open>shouldConfigureWp\<close> and the configuration; and the body of the
  last \<open>if ( shouldConfigureWp )\<close>.
\<close>

definition start_services :: "world \<Rightarrow> bool \<Rightarrow> (bool \<times> WPConfig) io" where
  "start_services w update =
    io_bind (checkForLegacyInstall w) (\<lambda>_.
    io_bind (initConfig w) (\<lambda>config.
    io_bind (if update then io_return True
             else didCacheChange CONFIG_CACHE_KEY (md5 w config) (workDirectoryPath config))
      (\<lambda>shouldConfigureWp.
    io_bind (if shouldConfigureWp then call w Stop else io_return ()) (\<lambda>_.
    io_bind (Promise_all
               [call w (DockerUpOne ''mysql''),
                if shouldConfigureWp then downloadSources w config else io_return ()]) (\<lambda>_.
    io_bind (if shouldConfigureWp then call w SetupWordPressDirectories else io_return ())
      (\<lambda>_.
    io_bind (call w (DockerUpMany [''wordpress'', ''tests-wordpress''])) (\<lambda>_.
    io_return (shouldConfigureWp, config))))))))"

definition ensure_writable :: "world \<Rightarrow> WPConfig \<Rightarrow> unit io" where
  "ensure_writable w config =
    (if topCoreSource config = Null
     then io_bind (Promise_all
                     [call w (MakeContentDirectoriesWritable Development),
                      call w (MakeContentDirectoriesWritable Tests)])
            (\<lambda>_. io_return ())
     else io_return ())"

definition await_database :: "world \<Rightarrow> unit io" where
  "await_database w =
    io_catch (call w CheckDatabaseConnection)
      (\<lambda>error.
         io_bind (retry (call w CheckDatabaseConnection) 30 1000) (\<lambda>_.
         sleep 4000))"

definition configure_both :: "world \<Rightarrow> unit list io" where
  "configure_both w =
    Promise_all
      [retry (call w (ConfigureWordPress Development)) 2 (retry_default_delay w),
       retry (call w (ConfigureWordPress Tests)) 2 (retry_default_delay w)]"

definition configure_phase :: "world \<Rightarrow> WPConfig \<Rightarrow> unit io" where
  "configure_phase w config =
    io_bind (ensure_writable w config) (\<lambda>_.
    io_bind (await_database w) (\<lambda>_.
    io_bind (configure_both w) (\<lambda>_.
    setCache w CONFIG_CACHE_KEY (md5 w config) (workDirectoryPath config))))"

text \<open>
  The trace of \<open>k\<close> failed attempts at an action, each followed by the delay, and one
  more attempt.
\<close>

definition attempts_log :: "action \<Rightarrow> nat \<Rightarrow> nat \<Rightarrow> event list" where
  "attempts_log a delay k = concat (replicate k [Call a, Call (Sleep delay)]) @ [Call a]"

text \<open>The decision \<open>shouldConfigureWp\<close> of \<open>start\<close> for a cache content.\<close>

definition shouldConfigureWp_of ::
  "world \<Rightarrow> bool \<Rightarrow> (string \<times> string \<rightharpoonup> string) \<Rightarrow> bool" where
  "shouldConfigureWp_of w update c =
    (update \<or>
     c (workDirectoryPath (resolved_config w), CONFIG_CACHE_KEY) \<noteq>
       Some (md5 w (resolved_config w)))"

text \<open>
  The first of \<open>n\<close> invocations of an action, counted from its \<open>c\<close>-th, that succeeds.
\<close>

definition first_success :: "world \<Rightarrow> action \<Rightarrow> nat \<Rightarrow> nat \<Rightarrow> nat option" where
  "first_success w a c n = find (\<lambda>j. succeeds w a (c + j)) [0..<n]"

text \<open>
  What the configuration phase does in a world in which none of its actions has been
  invoked before: the outcome of each of its four steps and the events it leaves in
  the trace.  \<open>configure_phase_run\<close> below proves that this is what the code does.
\<close>

definition writable_ok :: "world \<Rightarrow> WPConfig \<Rightarrow> bool" where
  "writable_ok w config =
    (topCoreSource config = Null \<longrightarrow>
       succeeds w (MakeContentDirectoriesWritable Development) 0 \<and>
       succeeds w (MakeContentDirectoriesWritable Tests) 0)"

definition writable_log :: "WPConfig \<Rightarrow> event list" where
  "writable_log config =
    (if topCoreSource config = Null
     then [Par [[Call (MakeContentDirectoriesWritable Development)],
                [Call (MakeContentDirectoriesWritable Tests)]]]
     else [])"

definition database_ok :: "world \<Rightarrow> bool" where
  "database_ok w =
    (succeeds w CheckDatabaseConnection 0 \<or>
     first_success w CheckDatabaseConnection 1 30 \<noteq> None)"

definition database_log :: "world \<Rightarrow> event list" where
  "database_log w =
    (if succeeds w CheckDatabaseConnection 0 then [Call CheckDatabaseConnection]
     else (case first_success w CheckDatabaseConnection 1 30 of
             Some j \<Rightarrow>
               [Call CheckDatabaseConnection] @ attempts_log CheckDatabaseConnection 1000 j @
               [Call (Sleep 4000)]
           | None \<Rightarrow>
               [Call CheckDatabaseConnection] @ attempts_log CheckDatabaseConnection 1000 29))"

definition configured_ok :: "world \<Rightarrow> envName \<Rightarrow> bool" where
  "configured_ok w e =
    (succeeds w (ConfigureWordPress e) 0 \<or> succeeds w (ConfigureWordPress e) 1)"

definition configure_log :: "world \<Rightarrow> envName \<Rightarrow> event list" where
  "configure_log w e =
    (if succeeds w (ConfigureWordPress e) 0 then [Call (ConfigureWordPress e)]
     else [Call (ConfigureWordPress e), Call (Sleep (retry_default_delay w)),
           Call (ConfigureWordPress e)])"

definition phase_ok :: "world \<Rightarrow> WPConfig \<Rightarrow> bool" where
  "phase_ok w config =
    (writable_ok w config \<and> database_ok w \<and> configured_ok w Development \<and>
     configured_ok w Tests \<and>
     succeeds w (SetCache CONFIG_CACHE_KEY (md5 w config) (workDirectoryPath config)) 0)"

definition phase_log :: "world \<Rightarrow> WPConfig \<Rightarrow> event list" where
  "phase_log w config =
    writable_log config @
    (if writable_ok w config
     then database_log w @
       (if database_ok w
        then [Par [configure_log w Development, configure_log w Tests]] @
          (if configured_ok w Development \<and> configured_ok w Tests
           then [Call (SetCache CONFIG_CACHE_KEY (md5 w config) (workDirectoryPath config))]
           else [])
        else [])
     else [])"


text \<open>
  The external call that starts the acquisition of a source: the clone of a git source
  into its path, the download of a zip source to \<open>path.zip\<close>.  \<open>downloadSource\<close> does
  nothing for a source of another type.
\<close>

fun is_acquisition :: "action \<Rightarrow> bool" where
  "is_acquisition (GitClone u p) = True"
| "is_acquisition (GotDownload u z) = True"
| "is_acquisition a = False"

definition acquisitions :: "event list \<Rightarrow> action list" where
  "acquisitions evs = filter is_acquisition (actions evs)"

definition acquisition_of :: "WPSource \<Rightarrow> action list" where
  "acquisition_of source =
    (if type source = ''git'' then [GitClone (url source) (path source)]
     else if type source = ''zip'' then [GotDownload (url source) (path source @ ''.zip'')]
     else [])"

text \<open>\<open>config.env[ name ]\<close>.\<close>

definition env_config :: "envName \<Rightarrow> WPConfig \<Rightarrow> WPServiceConfig" where
  "env_config e config =
    (case e of Development \<Rightarrow> development (env config) | Tests \<Rightarrow> tests (env config))"
section \<open>Concrete configurations used as test inputs\<close>

definition gutenberg_a :: WPSource where
  "gutenberg_a =
    \<lparr>type = ''git'', path = ''/w/gutenberg'',
     url = Some ''https://github.com/a/gutenberg.git'', ref = Some ''master'',
     basename = ''gutenberg'', testsPath = None\<rparr>"

definition gutenberg_b :: WPSource where
  "gutenberg_b =
    \<lparr>type = ''git'', path = ''/w/gutenberg'',
     url = Some ''https://github.com/b/gutenberg.git'', ref = Some ''master'',
     basename = ''gutenberg'', testsPath = None\<rparr>"

definition gutenberg_a_v2 :: WPSource where
  "gutenberg_a_v2 =
    \<lparr>type = ''git'', path = ''/w/gutenberg-v2'',
     url = Some ''https://github.com/a/gutenberg.git'', ref = Some ''v2'',
     basename = ''gutenberg'', testsPath = None\<rparr>"

definition local_plugin :: WPSource where
  "local_plugin =
    \<lparr>type = ''local'', path = ''/home/me/plugin'', url = None, ref = None,
     basename = ''plugin'', testsPath = None\<rparr>"

definition local_core :: WPSource where
  "local_core =
    \<lparr>type = ''local'', path = ''/home/me/wp'', url = None, ref = None,
     basename = ''wp'', testsPath = Some ''/w/tests-wp''\<rparr>"

definition service_config ::
  "int \<Rightarrow> WPSource option \<Rightarrow> WPSource list \<Rightarrow> WPSource list \<Rightarrow> WPServiceConfig" where
  "service_config p core plugins themes =
    \<lparr>port = p, coreSource = core, pluginSources = plugins, themeSources = themes,
     mappings = []\<rparr>"

definition config_of ::
  "WPSource js_property \<Rightarrow> WPServiceConfig \<Rightarrow> WPServiceConfig \<Rightarrow> WPConfig" where
  "config_of tcs dev tst =
    \<lparr>configDirectoryPath = ''/home/me/plugin'', workDirectoryPath = ''/w'',
     dockerComposeConfigPath = ''/w/docker-compose.yml'', detectedLocalConfig = True,
     debug = False, topCoreSource = tcs,
     env = \<lparr>development = dev, tests = tst\<rparr>\<rparr>"

text \<open>Two repositories of different owners whose checkouts share one path.\<close>

definition config_same_path :: WPConfig where
  "config_same_path =
    config_of Null (service_config 8888 None [gutenberg_a, gutenberg_b] [])
                   (service_config 8889 None [gutenberg_a, gutenberg_b] [])"

text \<open>One repository at two refs, and a local plugin.\<close>

definition config_two_refs :: WPConfig where
  "config_two_refs =
    config_of Null (service_config 8888 None [local_plugin, gutenberg_a] [])
                   (service_config 8889 None [local_plugin, gutenberg_a_v2] [])"

text \<open>A Node environment in which the local core directory has four entries.\<close>

definition node_example :: node where
  "node_example =
    \<lparr>readdirSync =
       (\<lambda>p. if p = ''/home/me/wp''
            then Some [''index.php'', ''wp-config.php'', ''wp-content'', ''wp-admin'']
            else None),
     path_join = (\<lambda>a b. a @ ''/'' @ b),
     dirname = ''/usr/lib/wp-env/lib'',
     Number_toString = (\<lambda>i. [Digit 1, Exponent, Plus, Digit 2, Digit 1])\<rparr>"

text \<open>Both environments on one local core, with a local plugin each.\<close>

definition config_shared_local_core :: WPConfig where
  "config_shared_local_core =
    config_of (Val local_core)
      (service_config 4013 (Some local_core) [local_plugin] [])
      (service_config 4012 (Some local_core) [local_plugin] [])"

text \<open>
  No top-level core source, and a core override in the development environment only;
  and the converse, a top-level core source that the development environment does not
  have.
\<close>

definition config_dev_override :: WPConfig where
  "config_dev_override =
    config_of Null (service_config 8888 (Some local_core) [] []) (service_config 8889 None [] [])"

definition config_top_only :: WPConfig where
  "config_top_only =
    config_of (Val local_core) (service_config 8888 None [] []) (service_config 8889 None [] [])"

text \<open>
  A world in which no legacy install exists, every other call succeeds at once, the
  configuration has no core source, and a clone reports progress twice.
\<close>

definition config_default :: WPConfig where
  "config_default =
    config_of Null (service_config 8888 None [local_plugin] [])
                   (service_config 8889 None [local_plugin] [])"

definition world_of :: "(action \<Rightarrow> nat \<Rightarrow> bool) \<Rightarrow> WPConfig \<Rightarrow> world" where
  "world_of ok config =
    \<lparr>succeeds = ok,
     transferProgress = (\<lambda>a n. case a of GitClone u p \<Rightarrow> [(1, 0, 2), (2, 2, 2)] | _ \<Rightarrow> []),
     downloadProgress = (\<lambda>a n. []),
     readdir_result = (\<lambda>p. []),
     cwd_basename = ''plugin'',
     yesDelete = False,
     resolved_config = config,
     md5 = (\<lambda>c. ''d41d8cd98f00b204e9800998ecf8427e''),
     retry_default_delay = 5000,
     node_env = node_example\<rparr>"

definition all_but_access :: "action \<Rightarrow> nat \<Rightarrow> bool" where
  "all_but_access a n = (case a of FsAccess p \<Rightarrow> False | _ \<Rightarrow> True)"

text \<open>
  Outcomes: every call succeeds; the database refuses the first eleven checks and the
  configuration of the development environment fails once; the configuration of
  WordPress always fails.
\<close>

definition always :: "action \<Rightarrow> nat \<Rightarrow> bool" where
  "always a n = True"

definition slow_database :: "action \<Rightarrow> nat \<Rightarrow> bool" where
  "slow_database a n =
    (case a of
       CheckDatabaseConnection \<Rightarrow> 11 \<le> n
     | ConfigureWordPress e \<Rightarrow> e = Tests \<or> 1 \<le> n
     | _ \<Rightarrow> True)"

definition never_configures :: "action \<Rightarrow> nat \<Rightarrow> bool" where
  "never_configures a n = (case a of ConfigureWordPress e \<Rightarrow> False | _ \<Rightarrow> True)"

text \<open>The cache after a successful start of \<open>config_default\<close> in these worlds.\<close>

definition cached_checksum :: "string \<times> string \<rightharpoonup> string" where
  "cached_checksum =
    [(''/w'', ''config_checksum'') \<mapsto> ''d41d8cd98f00b204e9800998ecf8427e'']"

text \<open>A configuration whose core is a git repository, at the top level and in both
  environments.\<close>

definition git_core :: WPSource where
  "git_core =
    \<lparr>type = ''git'', path = ''/w/WordPress'',
     url = Some ''https://github.com/WordPress/WordPress.git'', ref = Some ''master'',
     basename = ''WordPress'', testsPath = Some ''/w/tests-WordPress''\<rparr>"

definition config_git_core :: WPConfig where
  "config_git_core =
    config_of (Val git_core) (service_config 8888 (Some git_core) [] [])
                              (service_config 8889 (Some git_core) [] [])"


text \<open>
  A world in which NodeGit reports the transfer progress of a fetch once before the
  number of objects is known: no object received, none indexed, a total of 0.
\<close>

definition total_unknown :: world where
  "total_unknown =
    (world_of always config_git_core)
      \<lparr>transferProgress :=
         (\<lambda>a n. case a of GitClone u p \<Rightarrow> [(1, 0, 2), (2, 2, 2)]
                 | GitFetch p r \<Rightarrow> [(0, 0, 0)]
                 | _ \<Rightarrow> [])\<rparr>"

text \<open>
  A forced update of \<open>config_default\<close>, with its checksum already in the cache, in the
  world in which the configuration of WordPress always fails; and the \<open>start\<close> without
  \<open>update\<close> that follows it, in a world in which nothing fails but the access to the
  installs of older versions (there are none).
\<close>

definition failed_update :: "(error + unit) \<times> state" where
  "failed_update =
    start (world_of never_configures config_default) True (fresh_state cached_checksum)"

definition start_after_failed_update :: "(error + unit) \<times> state" where
  "start_after_failed_update =
    start (world_of all_but_access config_default) False
      (fresh_state (cache (snd failed_update)))"






section \<open>Properties of the source selection\<close>

lemma sources_to_download_eq:
  "sources_to_download config = fst (collected (offered_sources config))"
  by (simp add: sources_to_download_def offered_sources_def Object_values_def env_sources_def
        forEach_addSource_def collected_def)

lemma somes_snoc: "somes (xs @ [x]) = somes xs @ (case x of None \<Rightarrow> [] | Some s \<Rightarrow> [s])"
  by (simp add: somes_def)

lemma collected_snoc: "collected (xs @ [x]) = addSource x (collected xs)"
  by (simp add: collected_def forEach_addSource_def)

lemma collected_Nil: "collected [] = ([], Map.empty)"
  by (simp add: collected_def forEach_addSource_def)

text \<open>\<open>addedSources\<close> holds exactly the urls of the sources pushed so far.\<close>

lemma added_collected:
  "snd (collected xs) u = (if Some u \<in> url ` set (fst (collected xs)) then Some True else None)"
proof (induction xs rule: rev_induct)
  case Nil
  show ?case by (simp add: collected_Nil)
next
  case (snoc x xs)
  show ?case
  proof (cases x)
    case None
    then show ?thesis using snoc by (simp add: collected_snoc addSource_def)
  next
    case (Some s)
    then show ?thesis using snoc
      by (cases "url s") (auto simp add: collected_snoc addSource_def image_iff)
  qed
qed

lemma truthy_collected:
  "js_get_truthy (snd (collected xs)) u =
     (Some u \<in> url ` set (fst (collected xs)) \<or> u \<in> set Object_prototype_keys)"
  by (simp add: js_get_truthy_def added_collected)

lemma fst_collected_snoc:
  "fst (collected (xs @ [x])) =
    (case x of None \<Rightarrow> fst (collected xs)
     | Some s \<Rightarrow>
       (case url s of None \<Rightarrow> fst (collected xs)
        | Some u \<Rightarrow>
           if fresh_key u \<and> Some u \<notin> url ` set (fst (collected xs))
           then fst (collected xs) @ [s] else fst (collected xs)))"
  by (auto simp add: collected_snoc addSource_def truthy_collected fresh_key_def
      split: option.splits)


lemma collected_fresh_key:
  "s \<in> set (fst (collected xs)) \<Longrightarrow> \<exists>u. url s = Some u \<and> fresh_key u"
proof (induction xs rule: rev_induct)
  case Nil
  then show ?case by (simp add: collected_Nil)
next
  case (snoc x xs)
  then show ?case
    by (auto simp add: fst_collected_snoc split: option.splits if_splits)
qed


lemma collected_complete:
  "d \<in> set (somes xs) \<Longrightarrow> url d = Some u \<Longrightarrow> fresh_key u \<Longrightarrow>
     Some u \<in> url ` set (fst (collected xs))"
proof (induction xs rule: rev_induct)
  case Nil
  then show ?case by (simp add: somes_def)
next
  case (snoc x xs)
  show ?case
  proof (cases x)
    case None
    then show ?thesis using snoc by (simp add: fst_collected_snoc somes_snoc)
  next
    case (Some s)
    show ?thesis
    proof (cases "d \<in> set (somes xs)")
      case True
      then have "Some u \<in> url ` set (fst (collected xs))" using snoc by blast
      then show ?thesis using Some
        by (auto simp add: fst_collected_snoc split: option.splits)
    next
      case False
      then have "d = s" using snoc.prems(1) Some by (simp add: somes_snoc)
      then show ?thesis using Some snoc.prems
        by (auto simp add: fst_collected_snoc image_iff)
    qed
  qed
qed

lemma find_append_None: "find P xs = None \<Longrightarrow> find P (xs @ ys) = find P ys"
  by (induction xs) (auto split: if_splits)

lemma find_append_Some: "find P xs = Some y \<Longrightarrow> find P (xs @ ys) = Some y"
  by (induction xs) (auto split: if_splits)

text \<open>A source that was pushed is the first descriptor offered with its url.\<close>

lemma collected_first:
  "s \<in> set (fst (collected xs)) \<Longrightarrow> find (\<lambda>d. url d = url s) (somes xs) = Some s"
proof (induction xs rule: rev_induct)
  case Nil
  then show ?case by (simp add: collected_Nil)
next
  case (snoc x xs)
  show ?case
  proof (cases "s \<in> set (fst (collected xs))")
    case True
    then show ?thesis using snoc.IH by (simp add: somes_snoc find_append_Some)
  next
    case False
    then obtain u where x: "x = Some s" and u: "url s = Some u" and d: "fresh_key u"
      and new: "Some u \<notin> url ` set (fst (collected xs))"
      using snoc.prems
      by (auto simp add: fst_collected_snoc split: option.splits if_splits)
    have "find (\<lambda>d. url d = url s) (somes xs) = None"
      using collected_complete [OF _ _ d, of _ xs] new u
      by (auto simp add: find_None_iff)
    then show ?thesis using x by (simp add: somes_snoc find_append_None)
  qed
qed


lemma example_sources_same_path:
  "sources_to_download config_same_path = [gutenberg_a, gutenberg_b]"
  by (simp add: sources_to_download_def config_same_path_def config_of_def service_config_def
      Object_values_def forEach_addSource_def addSource_def js_get_truthy_def
      Object_prototype_keys_def gutenberg_a_def gutenberg_b_def)

lemma example_sources_two_refs:
  "sources_to_download config_two_refs = [gutenberg_a]"
  by (simp add: sources_to_download_def config_two_refs_def config_of_def service_config_def
      Object_values_def forEach_addSource_def addSource_def js_get_truthy_def
      Object_prototype_keys_def gutenberg_a_def gutenberg_a_v2_def local_plugin_def)

lemma example_descriptors_two_refs:
  "all_descriptors config_two_refs = [local_plugin, gutenberg_a, local_plugin, gutenberg_a_v2]"
  by (simp add: all_descriptors_def offered_sources_def env_sources_def somes_def
      config_two_refs_def config_of_def service_config_def Object_values_def)


text \<open>
  A source of \<open>sources\<close> is the first descriptor offered with its url; a descriptor
  without a url is never in \<open>sources\<close>.
\<close>

lemma sources_first_with_url:
  "(\<forall>s\<in>set (sources_to_download config).
      find (\<lambda>d. url d = url s) (all_descriptors config) = Some s) \<and>
   (\<forall>xs d1 ys d2 zs u.
      all_descriptors config = xs @ d1 # ys @ d2 # zs \<and> (\<forall>x\<in>set xs. url x \<noteq> Some u) \<and>
      url d1 = Some u \<and> url d2 = Some u \<and> ref d2 \<noteq> ref d1 \<longrightarrow>
        d2 \<notin> set (sources_to_download config) \<and>
        (fresh_key u \<longrightarrow> d1 \<in> set (sources_to_download config))) \<and>
   (\<forall>d. url d = None \<longrightarrow> d \<notin> set (sources_to_download config))"
proof -
  have 1: "find (\<lambda>d. url d = url s) (all_descriptors config) = Some s"
    if "s \<in> set (sources_to_download config)" for s
    using that by (simp add: sources_to_download_eq all_descriptors_def collected_first)
  have 3: "d \<notin> set (sources_to_download config)" if "url d = None" for d :: WPSource
    using that collected_fresh_key [of d "offered_sources config"]
    by (auto simp add: sources_to_download_eq)
  have 2: "d2 \<notin> set (sources_to_download config) \<and>
        (fresh_key u \<longrightarrow> d1 \<in> set (sources_to_download config))"
    if a: "all_descriptors config = xs @ d1 # ys @ d2 # zs \<and> (\<forall>x\<in>set xs. url x \<noteq> Some u) \<and>
      url d1 = Some u \<and> url d2 = Some u \<and> ref d2 \<noteq> ref d1"
    for xs d1 ys d2 zs u
  proof -
    from a have "find (\<lambda>d. url d = Some u) xs = None" by (simp add: find_None_iff)
    then have first: "find (\<lambda>d. url d = Some u) (all_descriptors config) = Some d1"
      using a by (simp add: find_append_None)
    have no: "d2 \<notin> set (sources_to_download config)"
    proof
      assume "d2 \<in> set (sources_to_download config)"
      then have "find (\<lambda>d. url d = url d2) (all_descriptors config) = Some d2"
        by (rule 1)
      then have "d2 = d1" using first a by simp
      then show False using a by simp
    qed
    have yes: "d1 \<in> set (sources_to_download config)" if k: "fresh_key u"
    proof -
      have "d1 \<in> set (all_descriptors config)" using a by simp
      then have "Some u \<in> url ` set (sources_to_download config)"
        using collected_complete [of d1 "offered_sources config" u] a k
        by (simp add: sources_to_download_eq all_descriptors_def)
      then obtain s where s: "s \<in> set (sources_to_download config)" and us: "url s = Some u"
        by (auto simp add: image_iff)
      from 1 [OF s] have "find (\<lambda>d. url d = Some u) (all_descriptors config) = Some s"
        by (simp add: us)
      then show ?thesis using first s by simp
    qed
    from no yes show ?thesis by blast
  qed
  from 1 2 3 show ?thesis by blast
qed

section \<open>Properties of the generated topology\<close>




lemma hasSameCoreSource_pair:
  "hasSameCoreSource [a, b] = (map_option path (coreSource b) = map_option path (coreSource a))"
  by (simp add: hasSameCoreSource_def)

lemma build_None:
  "buildDockerComposeConfig nd config = None \<longleftrightarrow> testsMounts_of nd config = None"
  by (simp add: buildDockerComposeConfig_def Let_def split: option.splits)

lemma build_tests_volumes:
  "buildDockerComposeConfig nd config = Some c \<Longrightarrow>
     testsMounts_of nd config = Some (volumes (tests_wordpress (services c)))"
  by (auto simp add: buildDockerComposeConfig_def Let_def split: option.splits)

lemma build_development_volumes:
  "buildDockerComposeConfig nd config = Some c \<Longrightarrow>
     volumes (wordpress (services c)) = getMounts (development (env config)) ''wordpress''"
  by (auto simp add: buildDockerComposeConfig_def Let_def split: option.splits)


lemma build_top_volumes:
  "buildDockerComposeConfig nd config = Some c \<Longrightarrow>
     top_volumes c =
       (if topCoreSource config = Null \<or> topCoreSource config = Undefined
        then [''wordpress'', ''tests-wordpress''] else []) @ [''mysql'', ''phpunit-uploads'']"
  by (auto simp add: buildDockerComposeConfig_def Let_def split: option.splits js_property.splits)

lemma testsMounts_of_None:
  "testsMounts_of nd config = None \<longleftrightarrow>
     (\<exists>s. coreSource (development (env config)) = Some s \<and>
          hasSameCoreSource [development (env config), tests (env config)] \<and>
          type s = ''local'' \<and> readdirSync nd (path s) = None)"
  by (auto simp add: testsMounts_of_def sharedCoreMounts_def split: option.splits)

lemma example_build_shared_local_core:
  "\<exists>c. buildDockerComposeConfig node_example config_shared_local_core = Some c"
proof -
  have "testsMounts_of node_example config_shared_local_core \<noteq> None"
    by (simp add: testsMounts_of_None config_shared_local_core_def config_of_def
        service_config_def node_example_def local_core_def)
  then show ?thesis using build_None [of node_example config_shared_local_core] by auto
qed

section \<open>Reasoning about effects\<close>

lemma io_bind_assoc: "io_bind (io_bind m f) g = io_bind m (\<lambda>x. io_bind (f x) g)"
  by (auto simp add: io_bind_def fun_eq_iff split: prod.splits sum.splits)

lemma io_bind_return: "io_bind (io_return x) f = f x"
  by (simp add: io_bind_def io_return_def)

lemma start_split:
  "start w update =
     io_bind (start_services w update)
       (\<lambda>(shouldConfigureWp, config).
          if shouldConfigureWp then configure_phase w config else io_return ())"
  by (simp add: start_def start_services_def configure_phase_def ensure_writable_def
      await_database_def configure_both_def io_bind_assoc io_bind_return Let_def
      cong: if_cong)

lemma actions_append: "actions (xs @ ys) = actions xs @ actions ys"
  by (simp add: actions_def)

lemma actions_Nil: "actions [] = []"
  by (simp add: actions_def)

lemma actions_Call: "actions [Call a] = [a]"
  by (simp add: actions_def)

lemma actions_Progress: "actions [Progress i v] = []"
  by (simp add: actions_def)

lemma actions_Par: "actions [Par ls] = concat (map actions ls)"
proof -
  have "(\<lambda>l. concat (map actions_of l)) = actions" by (simp add: fun_eq_iff actions_def)
  then show ?thesis by (simp add: actions_def)
qed

lemma actions_Cons: "actions (ev # evs) = actions_of ev @ actions evs"
  by (simp add: actions_def)

lemma frames_return: "frames w A (io_return x)"
  by (simp add: frames_def io_return_def actions_Nil)

lemma frames_emit_Progress: "frames w A (emit (Progress i v))"
  by (simp add: frames_def emit_def actions_Progress)

lemma frames_call: "a \<in> A \<Longrightarrow> frames w A (call w a)"
  by (auto simp add: frames_def call_def actions_Call)

lemma frames_sleep: "Sleep ms \<in> A \<Longrightarrow> frames w A (sleep ms)"
  by (simp add: frames_def sleep_def emit_def actions_Call)

lemma frames_didCacheChange: "frames w A (didCacheChange k v d)"
  by (simp add: frames_def didCacheChange_def actions_Nil)

lemma framesD:
  assumes "frames w A m" and "m s = (r, s')"
  shows "cache s' = cache s"
    and "\<forall>a. a \<notin> A \<longrightarrow> calls s' a = calls s a"
    and "\<exists>evs. log s' = log s @ evs \<and> set (actions evs) \<subseteq> A"
    and "(\<forall>a\<in>A. \<forall>n. succeeds w a n) \<longrightarrow> \<not> isl r"
proof -
  from assms(1) have "cache (snd (m s)) = cache s \<and>
         (\<forall>a. a \<notin> A \<longrightarrow> calls (snd (m s)) a = calls s a) \<and>
         (\<exists>evs. log (snd (m s)) = log s @ evs \<and> set (actions evs) \<subseteq> A) \<and>
         ((\<forall>a\<in>A. \<forall>n. succeeds w a n) \<longrightarrow> \<not> isl (fst (m s)))"
    unfolding frames_def by (rule allE)
  then show "cache s' = cache s"
    and "\<forall>a. a \<notin> A \<longrightarrow> calls s' a = calls s a"
    and "\<exists>evs. log s' = log s @ evs \<and> set (actions evs) \<subseteq> A"
    and "(\<forall>a\<in>A. \<forall>n. succeeds w a n) \<longrightarrow> \<not> isl r"
    using assms(2) by simp_all
qed

lemma frames_bind:
  assumes m: "frames w A m" and f: "\<And>x. frames w A (f x)"
  shows "frames w A (io_bind m f)"
  unfolding frames_def
proof (intro allI)
  fix s
  obtain r s1 where ms: "m s = (r, s1)" by (cases "m s")
  note m1 = framesD(1) [OF m ms] and m2 = framesD(2) [OF m ms]
    and m3 = framesD(3) [OF m ms] and m4 = framesD(4) [OF m ms]
  show "cache (snd (io_bind m f s)) = cache s \<and>
         (\<forall>a. a \<notin> A \<longrightarrow> calls (snd (io_bind m f s)) a = calls s a) \<and>
         (\<exists>evs. log (snd (io_bind m f s)) = log s @ evs \<and> set (actions evs) \<subseteq> A) \<and>
         ((\<forall>a\<in>A. \<forall>n. succeeds w a n) \<longrightarrow> \<not> isl (fst (io_bind m f s)))"
  proof (cases r)
    case (Inl e)
    then have "io_bind m f s = (Inl e, s1)" using ms by (simp add: io_bind_def)
    then show ?thesis using m1 m2 m3 m4 Inl by simp
  next
    case (Inr x)
    then have b: "io_bind m f s = f x s1" using ms by (simp add: io_bind_def)
    obtain r2 s2 where fs: "f x s1 = (r2, s2)" by (cases "f x s1")
    note f1 = framesD(1) [OF f fs] and f2 = framesD(2) [OF f fs]
      and f3 = framesD(3) [OF f fs] and f4 = framesD(4) [OF f fs]
    from m3 f3 obtain e1 e2 where "log s1 = log s @ e1" "set (actions e1) \<subseteq> A"
      "log s2 = log s1 @ e2" "set (actions e2) \<subseteq> A" by blast
    then have "log s2 = log s @ (e1 @ e2) \<and> set (actions (e1 @ e2)) \<subseteq> A"
      by (simp add: actions_append)
    then have "\<exists>evs. log s2 = log s @ evs \<and> set (actions evs) \<subseteq> A" by blast
    then show ?thesis using b fs f1 f2 f4 m1 m2 by simp
  qed
qed

lemma frames_catch:
  assumes m: "frames w A m" and f: "\<And>e. frames w A (h e)"
  shows "frames w A (io_catch m h)"
  unfolding frames_def
proof (intro allI)
  fix s
  obtain r s1 where ms: "m s = (r, s1)" by (cases "m s")
  note m1 = framesD(1) [OF m ms] and m2 = framesD(2) [OF m ms]
    and m3 = framesD(3) [OF m ms] and m4 = framesD(4) [OF m ms]
  show "cache (snd (io_catch m h s)) = cache s \<and>
         (\<forall>a. a \<notin> A \<longrightarrow> calls (snd (io_catch m h s)) a = calls s a) \<and>
         (\<exists>evs. log (snd (io_catch m h s)) = log s @ evs \<and> set (actions evs) \<subseteq> A) \<and>
         ((\<forall>a\<in>A. \<forall>n. succeeds w a n) \<longrightarrow> \<not> isl (fst (io_catch m h s)))"
  proof (cases r)
    case (Inr x)
    then have "io_catch m h s = (Inr x, s1)" using ms by (simp add: io_catch_def)
    then show ?thesis using m1 m2 m3 by simp
  next
    case (Inl e)
    then have b: "io_catch m h s = h e s1" using ms by (simp add: io_catch_def)
    obtain r2 s2 where fs: "h e s1 = (r2, s2)" by (cases "h e s1")
    note f1 = framesD(1) [OF f fs] and f2 = framesD(2) [OF f fs]
      and f3 = framesD(3) [OF f fs] and f4 = framesD(4) [OF f fs]
    from m3 f3 obtain e1 e2 where "log s1 = log s @ e1" "set (actions e1) \<subseteq> A"
      "log s2 = log s1 @ e2" "set (actions e2) \<subseteq> A" by blast
    then have "log s2 = log s @ (e1 @ e2) \<and> set (actions (e1 @ e2)) \<subseteq> A"
      by (simp add: actions_append)
    then have "\<exists>evs. log s2 = log s @ evs \<and> set (actions evs) \<subseteq> A" by blast
    then show ?thesis using b fs f1 f2 f4 m1 m2 by simp
  qed
qed

lemma collect_results_ok: "\<forall>r\<in>set rs. \<not> isl r \<Longrightarrow> \<not> isl (collect_results rs)"
proof (induction rs)
  case Nil
  show ?case by simp
next
  case (Cons r rs)
  then show ?case by (cases r) (auto split: sum.splits)
qed

lemma run_all_frames:
  assumes "\<And>m. m \<in> set ms \<Longrightarrow> frames w A m"
  shows "cache (snd (run_all ms s)) = cache s \<and>
     (\<forall>a. a \<notin> A \<longrightarrow> calls (snd (run_all ms s)) a = calls s a) \<and>
     (\<forall>l\<in>set (snd (fst (run_all ms s))). set (actions l) \<subseteq> A) \<and>
     ((\<forall>a\<in>A. \<forall>n. succeeds w a n) \<longrightarrow> (\<forall>r\<in>set (fst (fst (run_all ms s))). \<not> isl r))"
  using assms
proof (induction ms arbitrary: s)
  case Nil
  show ?case by simp
next
  case (Cons m ms)
  let ?s0 = "s\<lparr>log := []\<rparr>"
  obtain r s1 where ms: "m ?s0 = (r, s1)" by (cases "m ?s0")
  have fm: "frames w A m" using Cons.prems by simp
  have m1: "cache s1 = cache s" using framesD(1) [OF fm ms] by simp
  have m2: "\<forall>a. a \<notin> A \<longrightarrow> calls s1 a = calls s a" using framesD(2) [OF fm ms] by simp
  have m3: "\<exists>evs. log s1 = log ?s0 @ evs \<and> set (actions evs) \<subseteq> A"
    using framesD(3) [OF fm ms] .
  note m4 = framesD(4) [OF fm ms]
  from m3 have m3': "set (actions (log s1)) \<subseteq> A" by auto
  have ih: "cache (snd (run_all ms s1)) = cache s1 \<and>
     (\<forall>a. a \<notin> A \<longrightarrow> calls (snd (run_all ms s1)) a = calls s1 a) \<and>
     (\<forall>l\<in>set (snd (fst (run_all ms s1))). set (actions l) \<subseteq> A) \<and>
     ((\<forall>a\<in>A. \<forall>n. succeeds w a n) \<longrightarrow> (\<forall>r\<in>set (fst (fst (run_all ms s1))). \<not> isl r))"
    using Cons.IH [of s1] Cons.prems by simp
  obtain rs ls s2 where r2: "run_all ms s1 = ((rs, ls), s2)"
    by (cases "run_all ms s1") auto
  have "run_all (m # ms) s = ((r # rs, log s1 # ls), s2)"
    using ms r2 by simp
  then show ?case using ih r2 m1 m2 m3' m4 by simp
qed

lemma frames_Promise_all:
  assumes "\<And>m. m \<in> set ms \<Longrightarrow> frames w A m"
  shows "frames w A (Promise_all ms)"
  unfolding frames_def
proof (intro allI)
  fix s
  obtain rs ls s2 where r: "run_all ms s = ((rs, ls), s2)"
    by (cases "run_all ms s") auto
  have p: "Promise_all ms s = (collect_results rs, s2\<lparr>log := log s @ [Par ls]\<rparr>)"
    using r by (simp add: Promise_all_def)
  from run_all_frames [of ms w A s, OF assms] r
  have 1: "cache s2 = cache s" and 2: "\<forall>a. a \<notin> A \<longrightarrow> calls s2 a = calls s a"
    and 3: "\<forall>l\<in>set ls. set (actions l) \<subseteq> A"
    and 4: "(\<forall>a\<in>A. \<forall>n. succeeds w a n) \<longrightarrow> (\<forall>r\<in>set rs. \<not> isl r)"
    by simp_all
  from 3 have "set (actions [Par ls]) \<subseteq> A" by (auto simp add: actions_Par)
  then have 5: "\<exists>evs. log s @ [Par ls] = log s @ evs \<and> set (actions evs) \<subseteq> A" by blast
  show "cache (snd (Promise_all ms s)) = cache s \<and>
         (\<forall>a. a \<notin> A \<longrightarrow> calls (snd (Promise_all ms s)) a = calls s a) \<and>
         (\<exists>evs. log (snd (Promise_all ms s)) = log s @ evs \<and> set (actions evs) \<subseteq> A) \<and>
         ((\<forall>a\<in>A. \<forall>n. succeeds w a n) \<longrightarrow> \<not> isl (fst (Promise_all ms s)))"
    using p 1 2 4 5 collect_results_ok [of rs] by simp
qed

lemma frames_if:
  "(c \<Longrightarrow> frames w A m) \<Longrightarrow> (\<not> c \<Longrightarrow> frames w A n) \<Longrightarrow> frames w A (if c then m else n)"
  by simp

lemma frames_retry:
  assumes "frames w A act" and "Sleep delay \<in> A"
  shows "frames w A (retry act (Suc n) delay)"
proof (induction n)
  case 0
  show ?case using assms(1) by simp
next
  case (Suc n)
  show ?case
    by (simp, intro frames_catch frames_bind frames_sleep assms Suc)
qed

lemma frames_call_with_transferProgress:
  assumes "a \<in> A"
  shows "frames w A (call_with_transferProgress w i a)"
proof -
  have "actions (map (\<lambda>(received, indexed, total).
          Progress i (js_div (received + indexed) (total * 2))) xs) = []" for xs
    by (induction xs) (auto simp add: actions_Nil actions_Cons)
  then show ?thesis using assms
    by (auto simp add: frames_def call_with_transferProgress_def io_bind_def
        actions_append actions_Cons)
qed

lemma frames_call_with_downloadProgress:
  assumes "a \<in> A"
  shows "frames w A (call_with_downloadProgress w i a)"
proof -
  have "actions (map (Progress i) xs) = []" for xs
    by (induction xs) (auto simp add: actions_Nil actions_Cons)
  then show ?thesis using assms
    by (auto simp add: frames_def call_with_downloadProgress_def
        actions_append actions_Cons)
qed

lemma frames_downloadGitSource:
  "frames w {a. \<not> is_configuring a} (downloadGitSource w source)"
  unfolding downloadGitSource_def
  by (intro frames_bind frames_catch frames_call frames_emit_Progress
      frames_call_with_transferProgress) simp_all

lemma frames_downloadZipSource:
  "frames w {a. \<not> is_configuring a} (downloadZipSource w source)"
  unfolding downloadZipSource_def Let_def
  by (intro frames_bind frames_catch frames_call frames_emit_Progress frames_Promise_all
      frames_call_with_downloadProgress frames_return) (auto intro!: frames_bind frames_call frames_Promise_all frames_return)

lemma frames_downloadSource:
  "frames w {a. \<not> is_configuring a} (downloadSource w source)"
  unfolding downloadSource_def
  by (intro frames_if frames_downloadGitSource frames_downloadZipSource frames_return)

lemma frames_downloadSources:
  "frames w {a. \<not> is_configuring a} (downloadSources w config)"
  unfolding downloadSources_def
  by (intro frames_bind frames_Promise_all frames_return) (auto simp add: frames_downloadSource)

lemma frames_checkForLegacyInstall:
  "frames w {a. is_legacy_check a} (checkForLegacyInstall w)"
  unfolding checkForLegacyInstall_def Let_def
  by (intro frames_bind frames_Promise_all frames_if frames_return frames_call)
    (auto intro!: frames_bind frames_catch frames_call frames_return)

lemma frames_mono:
  assumes "frames w A m" and "A \<subseteq> B"
  shows "frames w B m"
  unfolding frames_def
proof (intro allI)
  fix s
  obtain r s1 where ms: "m s = (r, s1)" by (cases "m s")
  note m1 = framesD(1) [OF assms(1) ms] and m2 = framesD(2) [OF assms(1) ms]
    and m3 = framesD(3) [OF assms(1) ms] and m4 = framesD(4) [OF assms(1) ms]
  from m3 assms(2) have "\<exists>evs. log s1 = log s @ evs \<and> set (actions evs) \<subseteq> B" by blast
  moreover from m2 assms(2) have "\<forall>a. a \<notin> B \<longrightarrow> calls s1 a = calls s a" by blast
  moreover from m4 assms(2) have "(\<forall>a\<in>B. \<forall>n. succeeds w a n) \<longrightarrow> \<not> isl r" by blast
  ultimately show "cache (snd (m s)) = cache s \<and>
         (\<forall>a. a \<notin> B \<longrightarrow> calls (snd (m s)) a = calls s a) \<and>
         (\<exists>evs. log (snd (m s)) = log s @ evs \<and> set (actions evs) \<subseteq> B) \<and>
         ((\<forall>a\<in>B. \<forall>n. succeeds w a n) \<longrightarrow> \<not> isl (fst (m s)))"
    using ms m1 by simp
qed

lemma legacy_not_configuring: "{a. is_legacy_check a} \<subseteq> {a. \<not> is_configuring a}"
proof
  fix a assume "a \<in> {a. is_legacy_check a}"
  then show "a \<in> {a. \<not> is_configuring a}" by (cases a) simp_all
qed

lemma frames_start_services:
  "frames w {a. \<not> is_configuring a} (start_services w update)"
  unfolding start_services_def initConfig_def
  by (intro frames_bind frames_if frames_Promise_all frames_return frames_call
      frames_didCacheChange frames_mono [OF frames_checkForLegacyInstall legacy_not_configuring])
    (auto intro!: frames_call frames_return frames_downloadSources)

section \<open>Properties of \<open>retry\<close> and of the configuration phase\<close>

lemma io_bind_Inr:
  assumes "io_bind m f s = (Inr y, s')"
  obtains x s1 where "m s = (Inr x, s1)" and "f x s1 = (Inr y, s')"
  using assms by (auto simp add: io_bind_def split: prod.splits sum.splits)

lemma call_run:
  "call w a s =
    (if succeeds w a (calls s a) then Inr () else Inl (Failed a),
     s\<lparr>log := log s @ [Call a], calls := (calls s)(a := Suc (calls s a))\<rparr>)"
  by (simp add: call_def)

lemma sleep_run: "sleep ms s = (Inr (), s\<lparr>log := log s @ [Call (Sleep ms)]\<rparr>)"
  by (simp add: sleep_def emit_def)

lemma attempts_log_0: "attempts_log a d 0 = [Call a]"
  by (simp add: attempts_log_def)

lemma attempts_log_Suc: "attempts_log a d (Suc k) = [Call a, Call (Sleep d)] @ attempts_log a d k"
  by (simp add: attempts_log_def)

text \<open>
  A retried call that first succeeds at its \<open>j\<close>-th further invocation, and one that
  fails \<open>n\<close> times.
\<close>

lemma retry_call_succeeds:
  assumes "j < n" and "\<forall>i<j. \<not> succeeds w a (calls s a + i)" and "succeeds w a (calls s a + j)"
  shows "retry (call w a) n delay s =
    (Inr (), s\<lparr>log := log s @ attempts_log a delay j, calls := (calls s)(a := calls s a + j + 1)\<rparr>)"
  using assms
proof (induction j arbitrary: n s)
  case 0
  then obtain m where n: "n = Suc m" by (cases n) auto
  show ?case
  proof (cases m)
    case 0
    then show ?thesis using n "0.prems" by (simp add: call_run attempts_log_0 fun_upd_def cong: if_cong)
  next
    case (Suc m')
    then show ?thesis using n "0.prems"
      by (simp add: call_run attempts_log_0 io_catch_def fun_upd_def cong: if_cong)
  qed
next
  case (Suc j)
  then obtain m where n: "n = Suc (Suc m)" by (cases n; cases "n - 1") auto
  let ?s1 = "s\<lparr>log := log s @ [Call a], calls := (calls s)(a := Suc (calls s a))\<rparr>"
  let ?s2 = "?s1\<lparr>log := log ?s1 @ [Call (Sleep delay)]\<rparr>"
  have f0: "\<not> succeeds w a (calls s a)" using Suc.prems(2) by force
  have step: "retry (call w a) n delay s = retry (call w a) (Suc m) delay ?s2"
    using n f0 by (simp add: call_run io_catch_def io_bind_def sleep_run)
  have c2: "calls ?s2 a = Suc (calls s a)" by simp
  have "retry (call w a) (Suc m) delay ?s2 =
    (Inr (), ?s2\<lparr>log := log ?s2 @ attempts_log a delay j,
        calls := (calls ?s2)(a := calls ?s2 a + j + 1)\<rparr>)"
  proof (rule Suc.IH)
    show "j < Suc m" using Suc.prems(1) n by simp
    show "\<forall>i<j. \<not> succeeds w a (calls ?s2 a + i)"
      using Suc.prems(2) c2 by (metis Suc_less_eq add_Suc_shift)
    show "succeeds w a (calls ?s2 a + j)"
      using Suc.prems(3) c2 by simp
  qed
  then show ?case using step by (simp add: attempts_log_Suc fun_upd_def cong: if_cong)
qed

lemma retry_call_fails:
  assumes "\<forall>i<Suc n. \<not> succeeds w a (calls s a + i)"
  shows "retry (call w a) (Suc n) delay s =
    (Inl (Failed a),
     s\<lparr>log := log s @ attempts_log a delay n, calls := (calls s)(a := calls s a + Suc n)\<rparr>)"
  using assms
proof (induction n arbitrary: s)
  case 0
  then show ?case by (simp add: call_run attempts_log_0 fun_upd_def cong: if_cong)
next
  case (Suc n)
  let ?s1 = "s\<lparr>log := log s @ [Call a], calls := (calls s)(a := Suc (calls s a))\<rparr>"
  let ?s2 = "?s1\<lparr>log := log ?s1 @ [Call (Sleep delay)]\<rparr>"
  have f0: "\<not> succeeds w a (calls s a)" using Suc.prems by force
  have step: "retry (call w a) (Suc (Suc n)) delay s = retry (call w a) (Suc n) delay ?s2"
    using f0 by (simp add: call_run io_catch_def io_bind_def sleep_run)
  have c2: "calls ?s2 a = Suc (calls s a)" by simp
  have "retry (call w a) (Suc n) delay ?s2 =
    (Inl (Failed a), ?s2\<lparr>log := log ?s2 @ attempts_log a delay n,
        calls := (calls ?s2)(a := calls ?s2 a + Suc n)\<rparr>)"
  proof (rule Suc.IH)
    show "\<forall>i<Suc n. \<not> succeeds w a (calls ?s2 a + i)"
      using Suc.prems c2 by (metis Suc_less_eq add_Suc_shift)
  qed
  then show ?case using step by (simp add: attempts_log_Suc fun_upd_def cong: if_cong)
qed

lemma first_success_Some:
  "first_success w a c n = Some j \<longleftrightarrow>
     j < n \<and> succeeds w a (c + j) \<and> (\<forall>i<j. \<not> succeeds w a (c + i))"
  by (auto simp add: first_success_def find_Some_iff)

lemma first_success_None:
  "first_success w a c n = None \<longleftrightarrow> (\<forall>i<n. \<not> succeeds w a (c + i))"
  by (auto simp add: first_success_def find_None_iff)

lemma retry_call_run:
  assumes "0 < n"
  shows "retry (call w a) n delay s =
    (case first_success w a (calls s a) n of
       Some j \<Rightarrow>
         (Inr (), s\<lparr>log := log s @ attempts_log a delay j,
                   calls := (calls s)(a := calls s a + j + 1)\<rparr>)
     | None \<Rightarrow>
         (Inl (Failed a), s\<lparr>log := log s @ attempts_log a delay (n - 1),
                   calls := (calls s)(a := calls s a + n)\<rparr>))"
proof -
  from assms obtain m where n: "n = Suc m" by (cases n) auto
  show ?thesis
  proof (cases "first_success w a (calls s a) n")
    case None
    then have "\<forall>i<Suc m. \<not> succeeds w a (calls s a + i)"
      using n by (simp add: first_success_None)
    from retry_call_fails [OF this, of delay] show ?thesis
      using None n by simp
  next
    case (Some j)
    then have "j < n" and "\<forall>i<j. \<not> succeeds w a (calls s a + i)"
      and "succeeds w a (calls s a + j)"
      by (simp_all add: first_success_Some)
    from retry_call_succeeds [OF this, of delay] show ?thesis
      using Some by simp
  qed
qed

lemma io_bind_run:
  "io_bind m f s = (case m s of (Inl e, s') \<Rightarrow> (Inl e, s') | (Inr x, s') \<Rightarrow> f x s')"
  by (simp add: io_bind_def)

lemma io_catch_run:
  "io_catch m h s = (case m s of (Inl e, s') \<Rightarrow> h e s' | (Inr x, s') \<Rightarrow> (Inr x, s'))"
  by (simp add: io_catch_def)

lemma io_return_run: "io_return x s = (Inr x, s)"
  by (simp add: io_return_def)

text \<open>The wait for the database, from a state in which no check has been made.\<close>

lemma await_database_run:
  assumes "calls s CheckDatabaseConnection = 0"
  shows "await_database w s =
    (if succeeds w CheckDatabaseConnection 0
     then (Inr (), s\<lparr>log := log s @ [Call CheckDatabaseConnection],
                      calls := (calls s)(CheckDatabaseConnection := 1)\<rparr>)
     else (case first_success w CheckDatabaseConnection 1 30 of
             Some j \<Rightarrow>
               (Inr (), s\<lparr>log := log s @ [Call CheckDatabaseConnection] @
                                attempts_log CheckDatabaseConnection 1000 j @
                                [Call (Sleep 4000)],
                         calls := (calls s)(CheckDatabaseConnection := j + 2)\<rparr>)
           | None \<Rightarrow>
               (Inl (Failed CheckDatabaseConnection),
                  s\<lparr>log := log s @ [Call CheckDatabaseConnection] @
                                attempts_log CheckDatabaseConnection 1000 29,
                     calls := (calls s)(CheckDatabaseConnection := 31)\<rparr>)))"
  unfolding await_database_def
  using assms
  by (simp add: io_catch_run io_bind_run call_run retry_call_run sleep_run
      split: option.splits)

lemma first_success_two:
  "first_success w a c 2 =
    (if succeeds w a c then Some 0 else if succeeds w a (Suc c) then Some 1 else None)"
  by (simp add: first_success_def numeral_2_eq_2)

lemma retry_twice:
  "retry (call w a) 2 d s =
    (if succeeds w a (calls s a) \<or> succeeds w a (Suc (calls s a)) then Inr () else Inl (Failed a),
     s\<lparr>log := log s @ (if succeeds w a (calls s a) then [Call a]
                        else [Call a, Call (Sleep d), Call a]),
       calls := (calls s)(a := (if succeeds w a (calls s a) then calls s a + 1 else calls s a + 2))\<rparr>)"
  by (simp add: retry_call_run first_success_two attempts_log_def)

lemma Promise_all_two:
  "Promise_all [m1, m2] s =
    (case m1 (s\<lparr>log := []\<rparr>) of
       (r1, s1) \<Rightarrow>
         (case m2 (s1\<lparr>log := []\<rparr>) of
            (r2, s2) \<Rightarrow>
              (collect_results [r1, r2], s2\<lparr>log := log s @ [Par [log s1, log s2]]\<rparr>)))"
  by (simp add: Promise_all_def split: prod.splits)

lemma ensure_writable_run:
  "ensure_writable w config s =
    (if topCoreSource config = Null
     then (if succeeds w (MakeContentDirectoriesWritable Development)
                (calls s (MakeContentDirectoriesWritable Development))
           then (if succeeds w (MakeContentDirectoriesWritable Tests)
                      (calls s (MakeContentDirectoriesWritable Tests))
                 then Inr () else Inl (Failed (MakeContentDirectoriesWritable Tests)))
           else Inl (Failed (MakeContentDirectoriesWritable Development)),
           s\<lparr>log := log s @ [Par [[Call (MakeContentDirectoriesWritable Development)],
                                   [Call (MakeContentDirectoriesWritable Tests)]]],
             calls := (calls s)
               (MakeContentDirectoriesWritable Development :=
                  Suc (calls s (MakeContentDirectoriesWritable Development)),
                MakeContentDirectoriesWritable Tests :=
                  Suc (calls s (MakeContentDirectoriesWritable Tests)))\<rparr>)
     else (Inr (), s))"
  by (simp add: ensure_writable_def Promise_all_two call_run io_bind_run io_return_run)

lemma configure_both_run:
  assumes "calls s (ConfigureWordPress Development) = 0"
    and "calls s (ConfigureWordPress Tests) = 0"
  shows "configure_both w s =
     (if succeeds w (ConfigureWordPress Development) 0 \<or>
         succeeds w (ConfigureWordPress Development) 1
      then (if succeeds w (ConfigureWordPress Tests) 0 \<or>
               succeeds w (ConfigureWordPress Tests) 1
            then Inr [(), ()] else Inl (Failed (ConfigureWordPress Tests)))
      else Inl (Failed (ConfigureWordPress Development)),
      s\<lparr>log := log s @
          [Par [if succeeds w (ConfigureWordPress Development) 0
                then [Call (ConfigureWordPress Development)]
                else [Call (ConfigureWordPress Development),
                      Call (Sleep (retry_default_delay w)),
                      Call (ConfigureWordPress Development)],
                if succeeds w (ConfigureWordPress Tests) 0
                then [Call (ConfigureWordPress Tests)]
                else [Call (ConfigureWordPress Tests),
                      Call (Sleep (retry_default_delay w)),
                      Call (ConfigureWordPress Tests)]]],
        calls := (calls s)
          (ConfigureWordPress Development :=
             (if succeeds w (ConfigureWordPress Development) 0 then 1 else 2),
           ConfigureWordPress Tests :=
             (if succeeds w (ConfigureWordPress Tests) 0 then 1 else 2))\<rparr>)"
  using assms
  by (simp add: configure_both_def Promise_all_two retry_twice) (auto simp add: numeral_2_eq_2)

lemma setCache_run:
  "setCache w key v workDir s =
    (if succeeds w (SetCache key v workDir) (calls s (SetCache key v workDir))
     then (Inr (), s\<lparr>log := log s @ [Call (SetCache key v workDir)],
                      calls := (calls s)(SetCache key v workDir :=
                                 Suc (calls s (SetCache key v workDir))),
                      cache := (cache s)((workDir, key) \<mapsto> v)\<rparr>)
     else (Inl (Failed (SetCache key v workDir)),
           s\<lparr>log := log s @ [Call (SetCache key v workDir)],
             calls := (calls s)(SetCache key v workDir :=
                        Suc (calls s (SetCache key v workDir)))\<rparr>))"
  by (simp add: setCache_def io_bind_run call_run)

lemma configure_phase_run:
  assumes z: "\<forall>a. is_configuring a \<longrightarrow> calls s a = 0"
  shows "isl (fst (configure_phase w config s)) = (\<not> phase_ok w config)"
    and "log (snd (configure_phase w config s)) = log s @ phase_log w config"
    and "cache (snd (configure_phase w config s)) =
      (if phase_ok w config
       then (cache s)((workDirectoryPath config, CONFIG_CACHE_KEY) \<mapsto> md5 w config)
       else cache s)"
proof -
  let ?D = "MakeContentDirectoriesWritable Development"
  let ?T = "MakeContentDirectoriesWritable Tests"
  let ?set = "SetCache CONFIG_CACHE_KEY (md5 w config) (workDirectoryPath config)"
  have z1: "calls s ?D = 0" "calls s ?T = 0" "calls s CheckDatabaseConnection = 0"
    "calls s (ConfigureWordPress Development) = 0" "calls s (ConfigureWordPress Tests) = 0"
    "calls s ?set = 0"
    using z by simp_all
  obtain rA sA where A: "ensure_writable w config s = (rA, sA)"
    by (cases "ensure_writable w config s")
  have A1: "isl rA = (\<not> writable_ok w config)"
    and A2: "log sA = log s @ writable_log config"
    and A3: "cache sA = cache s"
    and A4: "calls sA CheckDatabaseConnection = 0"
      "calls sA (ConfigureWordPress Development) = 0"
      "calls sA (ConfigureWordPress Tests) = 0" "calls sA ?set = 0"
    using A z1 by (auto simp add: ensure_writable_run writable_ok_def writable_log_def
        split: if_splits)
  obtain rB sB where B: "await_database w sA = (rB, sB)"
    by (cases "await_database w sA")
  have B1: "isl rB = (\<not> database_ok w)"
    and B2: "log sB = log sA @ database_log w"
    and B3: "cache sB = cache sA"
    and B4: "calls sB (ConfigureWordPress Development) = 0"
      "calls sB (ConfigureWordPress Tests) = 0" "calls sB ?set = 0"
    using B A4 by (auto simp add: await_database_run [OF A4(1)] database_ok_def
        database_log_def split: if_splits option.splits)
  obtain rC sC where C: "configure_both w sB = (rC, sC)"
    by (cases "configure_both w sB")
  have C1: "isl rC = (\<not> (configured_ok w Development \<and> configured_ok w Tests))"
    and C2: "log sC = log sB @ [Par [configure_log w Development, configure_log w Tests]]"
    and C3: "cache sC = cache sB"
    and C4: "calls sC ?set = 0"
    using C B4 by (auto simp add: configure_both_run [OF B4(1) B4(2)] configured_ok_def
        configure_log_def split: if_splits)
  obtain rD sD where D: "setCache w CONFIG_CACHE_KEY (md5 w config) (workDirectoryPath config) sC = (rD, sD)"
    by (cases "setCache w CONFIG_CACHE_KEY (md5 w config) (workDirectoryPath config) sC")
  have D1: "isl rD = (\<not> succeeds w ?set 0)"
    and D2: "log sD = log sC @ [Call ?set]"
    and D3: "cache sD = (if succeeds w ?set 0
        then (cache sC)((workDirectoryPath config, CONFIG_CACHE_KEY) \<mapsto> md5 w config)
        else cache sC)"
    using D C4 by (auto simp add: setCache_run split: if_splits)
  have run: "configure_phase w config s =
    (case rA of Inl e \<Rightarrow> (Inl e, sA)
     | Inr x \<Rightarrow> (case rB of Inl e \<Rightarrow> (Inl e, sB)
        | Inr x \<Rightarrow> (case rC of Inl e \<Rightarrow> (Inl e, sC) | Inr x \<Rightarrow> (rD, sD))))"
    using A B C D by (simp add: configure_phase_def io_bind_run split: sum.splits)
  show "isl (fst (configure_phase w config s)) = (\<not> phase_ok w config)"
    unfolding run using A1 B1 C1 D1
    by (auto simp add: phase_ok_def split: sum.splits)
  show "log (snd (configure_phase w config s)) = log s @ phase_log w config"
    unfolding run using A1 B1 C1 A2 B2 C2 D2
    by (auto simp add: phase_log_def split: sum.splits)
  show "cache (snd (configure_phase w config s)) =
      (if phase_ok w config
       then (cache s)((workDirectoryPath config, CONFIG_CACHE_KEY) \<mapsto> md5 w config)
       else cache s)"
    unfolding run using A1 B1 C1 A3 B3 C3 D3
    by (auto simp add: phase_ok_def split: sum.splits)
qed

lemma initConfig_run:
  "initConfig w s =
    (if succeeds w InitConfig (calls s InitConfig) then Inr (resolved_config w)
     else Inl (Failed InitConfig),
     s\<lparr>log := log s @ [Call InitConfig],
       calls := (calls s)(InitConfig := Suc (calls s InitConfig))\<rparr>)"
  by (simp add: initConfig_def io_bind_run call_run io_return_run)

lemma frames_initConfig: "frames w {a. \<not> is_configuring a} (initConfig w)"
  unfolding initConfig_def by (intro frames_bind frames_call frames_return) simp

text \<open>
  The value of \<open>start_services\<close>: the configuration of the world and the decision taken on
  the cache as it was at the start.
\<close>

lemma start_services_value:
  assumes "start_services w update s = (Inr (sh, cfg), s1)"
  shows "cfg = resolved_config w \<and> sh = shouldConfigureWp_of w update (cache s)"
proof -
  from assms obtain u sL where L: "checkForLegacyInstall w s = (Inr u, sL)"
    and 1: "io_bind (initConfig w) (\<lambda>config.
      io_bind (if update then io_return True
               else didCacheChange CONFIG_CACHE_KEY (md5 w config) (workDirectoryPath config))
        (\<lambda>shouldConfigureWp.
      io_bind (if shouldConfigureWp then call w Stop else io_return ()) (\<lambda>_.
      io_bind (Promise_all
                 [call w (DockerUpOne ''mysql''),
                  if shouldConfigureWp then downloadSources w config else io_return ()]) (\<lambda>_.
      io_bind (if shouldConfigureWp then call w SetupWordPressDirectories else io_return ())
        (\<lambda>_.
      io_bind (call w (DockerUpMany [''wordpress'', ''tests-wordpress''])) (\<lambda>_.
      io_return (shouldConfigureWp, config))))))) sL = (Inr (sh, cfg), s1)"
    unfolding start_services_def by (rule io_bind_Inr)
  have cL: "cache sL = cache s"
    using framesD(1) [OF frames_checkForLegacyInstall L] .
  from 1 obtain config sI where I: "initConfig w sL = (Inr config, sI)"
    and 2: "io_bind (if update then io_return True
               else didCacheChange CONFIG_CACHE_KEY (md5 w config) (workDirectoryPath config))
        (\<lambda>shouldConfigureWp.
      io_bind (if shouldConfigureWp then call w Stop else io_return ()) (\<lambda>_.
      io_bind (Promise_all
                 [call w (DockerUpOne ''mysql''),
                  if shouldConfigureWp then downloadSources w config else io_return ()]) (\<lambda>_.
      io_bind (if shouldConfigureWp then call w SetupWordPressDirectories else io_return ())
        (\<lambda>_.
      io_bind (call w (DockerUpMany [''wordpress'', ''tests-wordpress''])) (\<lambda>_.
      io_return (shouldConfigureWp, config)))))) sI = (Inr (sh, cfg), s1)"
    by (rule io_bind_Inr)
  have cfg: "config = resolved_config w" and cI: "cache sI = cache s"
    using I cL by (auto simp add: initConfig_run split: if_splits)
  from 2 obtain shv sD where D: "(if update then io_return True
               else didCacheChange CONFIG_CACHE_KEY (md5 w config) (workDirectoryPath config)) sI
        = (Inr shv, sD)"
    and 3: "io_bind (if shv then call w Stop else io_return ()) (\<lambda>_.
      io_bind (Promise_all
                 [call w (DockerUpOne ''mysql''),
                  if shv then downloadSources w config else io_return ()]) (\<lambda>_.
      io_bind (if shv then call w SetupWordPressDirectories else io_return ())
        (\<lambda>_.
      io_bind (call w (DockerUpMany [''wordpress'', ''tests-wordpress''])) (\<lambda>_.
      io_return (shv, config))))) sD = (Inr (sh, cfg), s1)"
    by (rule io_bind_Inr)
  have shv: "shv = shouldConfigureWp_of w update (cache s)"
    using D cfg cI
    by (auto simp add: io_return_run didCacheChange_def shouldConfigureWp_of_def split: if_splits)
  from 3 obtain x1 t1 where
    4: "io_bind (Promise_all
                 [call w (DockerUpOne ''mysql''),
                  if shv then downloadSources w config else io_return ()]) (\<lambda>_.
      io_bind (if shv then call w SetupWordPressDirectories else io_return ())
        (\<lambda>_.
      io_bind (call w (DockerUpMany [''wordpress'', ''tests-wordpress''])) (\<lambda>_.
      io_return (shv, config)))) t1 = (Inr (sh, cfg), s1)"
    by (rule io_bind_Inr)
  from 4 obtain x2 t2 where
    5: "io_bind (if shv then call w SetupWordPressDirectories else io_return ())
        (\<lambda>_.
      io_bind (call w (DockerUpMany [''wordpress'', ''tests-wordpress''])) (\<lambda>_.
      io_return (shv, config))) t2 = (Inr (sh, cfg), s1)"
    by (rule io_bind_Inr)
  from 5 obtain x3 t3 where
    6: "io_bind (call w (DockerUpMany [''wordpress'', ''tests-wordpress''])) (\<lambda>_.
      io_return (shv, config)) t3 = (Inr (sh, cfg), s1)"
    by (rule io_bind_Inr)
  from 6 obtain x4 t4 where "io_return (shv, config) t4 = (Inr (sh, cfg), s1)"
    by (rule io_bind_Inr)
  then have "sh = shv" and "cfg = config" by (simp_all add: io_return_run)
  then show ?thesis using cfg shv by simp
qed

lemma fresh_state_simps:
  "log (fresh_state c) = []" "calls (fresh_state c) a = 0" "cache (fresh_state c) = c"
  by (simp_all add: fresh_state_def)

text \<open>What is known of the state in which \<open>start_services\<close> ends, whatever happens.\<close>

lemma start_services_frame:
  assumes "start_services w update (fresh_state c) = (r, s1)"
  shows "cache s1 = c"
    and "\<forall>a. is_configuring a \<longrightarrow> calls s1 a = 0"
    and "\<forall>a\<in>set (actions (log s1)). \<not> is_configuring a"
    and "(\<forall>a n. \<not> is_configuring a \<longrightarrow> succeeds w a n) \<longrightarrow> \<not> isl r"
    and "\<forall>sh cfg. r = Inr (sh, cfg) \<longrightarrow>
           cfg = resolved_config w \<and> sh = shouldConfigureWp_of w update c"
proof -
  note f = frames_start_services [of w update]
  show "cache s1 = c" using framesD(1) [OF f assms] by (simp add: fresh_state_simps)
  show "\<forall>a. is_configuring a \<longrightarrow> calls s1 a = 0"
    using framesD(2) [OF f assms] by (simp add: fresh_state_simps)
  show "\<forall>a\<in>set (actions (log s1)). \<not> is_configuring a"
    using framesD(3) [OF f assms] by (auto simp add: fresh_state_simps)
  show "(\<forall>a n. \<not> is_configuring a \<longrightarrow> succeeds w a n) \<longrightarrow> \<not> isl r"
    using framesD(4) [OF f assms] by simp
  show "\<forall>sh cfg. r = Inr (sh, cfg) \<longrightarrow>
           cfg = resolved_config w \<and> sh = shouldConfigureWp_of w update c"
    using start_services_value [of w update "fresh_state c"] assms
    by (simp add: fresh_state_simps)
qed

lemma start_run:
  assumes "start_services w update s = (r, s1)"
  shows "start w update s =
    (case r of Inl e \<Rightarrow> (Inl e, s1)
     | Inr (sh, cfg) \<Rightarrow> if sh then configure_phase w cfg s1 else (Inr (), s1))"
  using assms by (simp add: start_split io_bind_run io_return_run split: sum.splits)

lemma actions_attempts_log: "set (actions (attempts_log a d k)) \<subseteq> {a, Sleep d}"
  by (induction k) (auto simp add: attempts_log_0 attempts_log_Suc actions_Cons actions_Nil)

lemma actions_writable_log:
  "set (actions (writable_log config)) =
    (if topCoreSource config = Null
     then {MakeContentDirectoriesWritable Development, MakeContentDirectoriesWritable Tests}
     else {})"
  by (auto simp add: writable_log_def actions_Cons actions_Nil)

lemma actions_database_log:
  "set (actions (database_log w)) \<subseteq> {CheckDatabaseConnection, Sleep 1000, Sleep 4000}"
  using actions_attempts_log [of CheckDatabaseConnection 1000]
  by (auto simp add: database_log_def actions_Cons actions_Nil actions_append
      split: option.splits)

lemma actions_configure_log:
  "set (actions (configure_log w e)) \<subseteq> {ConfigureWordPress e, Sleep (retry_default_delay w)}"
  by (auto simp add: configure_log_def actions_Cons actions_Nil)

lemma actions_phase_log:
  "set (actions (phase_log w config)) =
    set (actions (writable_log config)) \<union>
    (if writable_ok w config
     then set (actions (database_log w)) \<union>
       (if database_ok w
        then set (actions (configure_log w Development)) \<union>
             set (actions (configure_log w Tests)) \<union>
          (if configured_ok w Development \<and> configured_ok w Tests
           then {SetCache CONFIG_CACHE_KEY (md5 w config) (workDirectoryPath config)}
           else {})
        else {})
     else {})"
proof -
  have p: "actions_of (Par ls) = concat (map actions ls)" for ls
    using actions_Par [of ls] by (simp add: actions_def)
  show ?thesis
    by (simp add: phase_log_def actions_append actions_Cons actions_Nil p
        del: actions_of.simps(3))
qed

lemma actions_phase_log_configuring:
  "\<forall>a\<in>set (actions (phase_log w config)). is_configuring a"
proof
  fix a assume "a \<in> set (actions (phase_log w config))"
  then have "a \<in> {MakeContentDirectoriesWritable Development,
      MakeContentDirectoriesWritable Tests, CheckDatabaseConnection, Sleep 1000, Sleep 4000,
      ConfigureWordPress Development, ConfigureWordPress Tests, Sleep (retry_default_delay w),
      SetCache CONFIG_CACHE_KEY (md5 w config) (workDirectoryPath config)}"
    using actions_database_log [of w] actions_configure_log [of w Development]
      actions_configure_log [of w Tests]
    unfolding actions_phase_log actions_writable_log
    by (auto split: if_splits)
  then show "is_configuring a" by auto
qed

lemma writable_in_phase_log:
  assumes "MakeContentDirectoriesWritable e \<in> set (actions (phase_log w config))"
  shows "topCoreSource config = Null"
proof (rule ccontr)
  assume n: "topCoreSource config \<noteq> Null"
  from assms have "MakeContentDirectoriesWritable e \<in> {CheckDatabaseConnection, Sleep 1000,
      Sleep 4000, ConfigureWordPress Development, ConfigureWordPress Tests,
      Sleep (retry_default_delay w),
      SetCache CONFIG_CACHE_KEY (md5 w config) (workDirectoryPath config)}"
    using actions_database_log [of w] actions_configure_log [of w Development]
      actions_configure_log [of w Tests] n
    unfolding actions_phase_log actions_writable_log
    by (auto split: if_splits)
  then show False by simp
qed

lemma setCache_in_phase_log:
  assumes "SetCache k v d \<in> set (actions (phase_log w config))"
  shows "SetCache k v d = SetCache CONFIG_CACHE_KEY (md5 w config) (workDirectoryPath config)"
    and "writable_ok w config" and "database_ok w"
    and "configured_ok w Development" and "configured_ok w Tests"
    and "phase_log w config =
      writable_log config @ database_log w @
      [Par [configure_log w Development, configure_log w Tests]] @
      [Call (SetCache CONFIG_CACHE_KEY (md5 w config) (workDirectoryPath config))]"
proof -
  have no: "SetCache k v d \<notin> set (actions (writable_log config))"
    "SetCache k v d \<notin> set (actions (database_log w))"
    "SetCache k v d \<notin> set (actions (configure_log w Development))"
    "SetCache k v d \<notin> set (actions (configure_log w Tests))"
    using actions_database_log [of w] actions_configure_log [of w Development]
      actions_configure_log [of w Tests]
    by (auto simp add: actions_writable_log)
  from assms no have all: "writable_ok w config \<and> database_ok w \<and>
      configured_ok w Development \<and> configured_ok w Tests \<and>
      SetCache k v d = SetCache CONFIG_CACHE_KEY (md5 w config) (workDirectoryPath config)"
    unfolding actions_phase_log by (auto split: if_splits)
  then show "SetCache k v d = SetCache CONFIG_CACHE_KEY (md5 w config) (workDirectoryPath config)"
    and "writable_ok w config" and "database_ok w"
    and "configured_ok w Development" and "configured_ok w Tests"
    by simp_all
  from all show "phase_log w config =
      writable_log config @ database_log w @
      [Par [configure_log w Development, configure_log w Tests]] @
      [Call (SetCache CONFIG_CACHE_KEY (md5 w config) (workDirectoryPath config))]"
    by (simp add: phase_log_def)
qed

text \<open>
  The three ways a run of \<open>start\<close> from a fresh state can go: a step before the
  configuration phase is rejected; the configuration is unchanged and the phase is
  skipped; or the phase runs.
\<close>

lemma start_fresh_cases:
  obtains (rejected) e s1 where
      "start w update (fresh_state c) = (Inl e, s1)" and "cache s1 = c"
      and "\<forall>a\<in>set (actions (log s1)). \<not> is_configuring a"
      and "\<not> (\<forall>a n. \<not> is_configuring a \<longrightarrow> succeeds w a n)"
  | (skipped) s1 where
      "\<not> shouldConfigureWp_of w update c"
      and "start w update (fresh_state c) = (Inr (), s1)" and "cache s1 = c"
      and "\<forall>a\<in>set (actions (log s1)). \<not> is_configuring a"
  | (configured) s1 :: state and r s where
      "shouldConfigureWp_of w update c"
      and "start w update (fresh_state c) = (r, s)"
      and "isl r = (\<not> phase_ok w (resolved_config w))"
      and "log s = log s1 @ phase_log w (resolved_config w)"
      and "cache s =
        (if phase_ok w (resolved_config w)
         then c((workDirectoryPath (resolved_config w), CONFIG_CACHE_KEY) \<mapsto>
                md5 w (resolved_config w))
         else c)"
      and "\<forall>a\<in>set (actions (log s1)). \<not> is_configuring a"
proof -
  obtain r1 s1 where S: "start_services w update (fresh_state c) = (r1, s1)"
    by (cases "start_services w update (fresh_state c)")
  note fr = start_services_frame [OF S]
  note run = start_run [OF S]
  show thesis
  proof (cases r1)
    case (Inl e)
    then have "start w update (fresh_state c) = (Inl e, s1)" using run by simp
    moreover have "\<not> (\<forall>a n. \<not> is_configuring a \<longrightarrow> succeeds w a n)"
      using fr(4) Inl by auto
    ultimately show ?thesis using rejected fr(1) fr(3) by blast
  next
    case (Inr p)
    obtain sh cfg where p: "p = (sh, cfg)" by (cases p)
    have v: "cfg = resolved_config w" "sh = shouldConfigureWp_of w update c"
      using fr(5) Inr p by simp_all
    show ?thesis
    proof (cases sh)
      case False
      then have "start w update (fresh_state c) = (Inr (), s1)"
        using run Inr p by simp
      then show ?thesis using skipped False v fr(1) fr(3) by blast
    next
      case True
      obtain r s where R: "configure_phase w cfg s1 = (r, s)"
        by (cases "configure_phase w cfg s1")
      have 1: "start w update (fresh_state c) = (r, s)"
        using run Inr p True R by simp
      have 2: "isl r = (\<not> phase_ok w (resolved_config w))"
        using configure_phase_run(1) [OF fr(2), of w cfg] R v by simp
      have 3: "log s = log s1 @ phase_log w (resolved_config w)"
        using configure_phase_run(2) [OF fr(2), of w cfg] R v by simp
      have 4: "cache s =
        (if phase_ok w (resolved_config w)
         then c((workDirectoryPath (resolved_config w), CONFIG_CACHE_KEY) \<mapsto>
                md5 w (resolved_config w))
         else c)"
        using configure_phase_run(3) [OF fr(2), of w cfg] R v fr(1) by simp
      have 0: "shouldConfigureWp_of w update c" using True v by simp
      show ?thesis by (rule configured [OF 0 1 2 3 4 fr(3)])
    qed
  qed
qed

text \<open>
  The run of \<open>start\<close> without \<open>update\<close> on a cached checksum, from the state in which
  the check for legacy installs ends.
\<close>

lemma start_skip_run:
  assumes hit: "c (workDirectoryPath (resolved_config w), CONFIG_CACHE_KEY) =
      Some (md5 w (resolved_config w))"
    and L: "checkForLegacyInstall w (fresh_state c) = (r0, sL)"
  shows "cache (snd (start w False (fresh_state c))) = c"
    and "log (snd (start w False (fresh_state c))) =
      log sL @
      take (case r0 of Inl e \<Rightarrow> 0
            | Inr u \<Rightarrow> if \<not> succeeds w InitConfig 0 then 1
                       else if \<not> succeeds w (DockerUpOne ''mysql'') 0 then 2 else 3)
        [Call InitConfig, Par [[Call (DockerUpOne ''mysql'')], []],
         Call (DockerUpMany [''wordpress'', ''tests-wordpress''])]"
    and "isl (fst (start w False (fresh_state c))) =
      (isl r0 \<or> \<not> succeeds w InitConfig 0 \<or> \<not> succeeds w (DockerUpOne ''mysql'') 0 \<or>
       \<not> succeeds w (DockerUpMany [''wordpress'', ''tests-wordpress'']) 0)"
proof -
  note f = frames_checkForLegacyInstall [of w]
  have cL: "cache sL = c" using framesD(1) [OF f L] by (simp add: fresh_state_simps)
  have z: "calls sL InitConfig = 0" "calls sL (DockerUpOne ''mysql'') = 0"
    "calls sL (DockerUpMany [''wordpress'', ''tests-wordpress'']) = 0"
    using framesD(2) [OF f L] by (simp_all add: fresh_state_simps)
  have run: "start w False (fresh_state c) =
    (case r0 of Inl e \<Rightarrow> (Inl e, sL)
     | Inr u \<Rightarrow>
        io_bind (initConfig w) (\<lambda>config.
        io_bind (didCacheChange CONFIG_CACHE_KEY (md5 w config) (workDirectoryPath config))
          (\<lambda>shouldConfigureWp.
        io_bind (if shouldConfigureWp then call w Stop else io_return ()) (\<lambda>_.
        io_bind (Promise_all
               [call w (DockerUpOne ''mysql''),
                if shouldConfigureWp then downloadSources w config else io_return ()]) (\<lambda>_.
        io_bind (if shouldConfigureWp then call w SetupWordPressDirectories else io_return ())
          (\<lambda>_.
        io_bind (call w (DockerUpMany [''wordpress'', ''tests-wordpress''])) (\<lambda>_.
        if shouldConfigureWp then configure_phase w config else io_return ())))))) sL)"
    using L
    by (simp add: start_def io_bind_run configure_phase_def ensure_writable_def
        await_database_def configure_both_def Let_def split: sum.splits cong: if_cong)
  show "cache (snd (start w False (fresh_state c))) = c"
    unfolding run using cL z hit
    by (simp add: io_bind_run initConfig_run didCacheChange_def Promise_all_two call_run
        io_return_run split: sum.splits)
  show "log (snd (start w False (fresh_state c))) =
      log sL @
      take (case r0 of Inl e \<Rightarrow> 0
            | Inr u \<Rightarrow> if \<not> succeeds w InitConfig 0 then 1
                       else if \<not> succeeds w (DockerUpOne ''mysql'') 0 then 2 else 3)
        [Call InitConfig, Par [[Call (DockerUpOne ''mysql'')], []],
         Call (DockerUpMany [''wordpress'', ''tests-wordpress''])]"
    unfolding run using cL z hit
    by (simp add: io_bind_run initConfig_run didCacheChange_def Promise_all_two call_run
        io_return_run numeral_3_eq_3 numeral_2_eq_2 split: sum.splits)
  show "isl (fst (start w False (fresh_state c))) =
      (isl r0 \<or> \<not> succeeds w InitConfig 0 \<or> \<not> succeeds w (DockerUpOne ''mysql'') 0 \<or>
       \<not> succeeds w (DockerUpMany [''wordpress'', ''tests-wordpress'']) 0)"
    unfolding run using cL z hit
    by (simp add: io_bind_run initConfig_run didCacheChange_def Promise_all_two call_run
        io_return_run split: sum.splits)
qed

lemma downloadSources_not_rejected:
  assumes "\<forall>a n. \<not> is_configuring a \<longrightarrow> succeeds w a n"
    and "downloadSources w config s = (Inl e, s')"
  shows False
  using framesD(4) [OF frames_downloadSources assms(2)] assms(1) by simp

lemma checkForLegacyInstall_not_rejected:
  assumes "\<forall>a n. \<not> is_configuring a \<longrightarrow> succeeds w a n"
    and "checkForLegacyInstall w s = (Inl e, s')"
  shows False
  using framesD(4) [OF frames_mono [OF frames_checkForLegacyInstall legacy_not_configuring]
      assms(2)] assms(1) by simp

text \<open>
  The steps before the configuration phase in a run that re-provisions, when none of
  them is rejected.
\<close>

lemma start_services_provisioning:
  assumes ok: "\<forall>a n. \<not> is_configuring a \<longrightarrow> succeeds w a n"
    and sh: "shouldConfigureWp_of w update c"
  shows "\<exists>sL dl s1.
    checkForLegacyInstall w (fresh_state c) = (Inr (), sL) \<and>
    start_services w update (fresh_state c) = (Inr (True, resolved_config w), s1) \<and>
    log s1 = log sL @
      [Call InitConfig, Call Stop, Par [[Call (DockerUpOne ''mysql'')], dl],
       Call SetupWordPressDirectories,
       Call (DockerUpMany [''wordpress'', ''tests-wordpress''])]"
proof -
  obtain r0 sL where L: "checkForLegacyInstall w (fresh_state c) = (r0, sL)"
    by (cases "checkForLegacyInstall w (fresh_state c)")
  have r0: "r0 = Inr ()"
    using checkForLegacyInstall_not_rejected [OF ok] L by (cases r0) auto
  have cL: "cache sL = c"
    using framesD(1) [OF frames_checkForLegacyInstall L] by (simp add: fresh_state_simps)
  have s: "succeeds w InitConfig n" "succeeds w Stop n" "succeeds w (DockerUpOne ''mysql'') n"
    "succeeds w SetupWordPressDirectories n"
    "succeeds w (DockerUpMany [''wordpress'', ''tests-wordpress'']) n" for n
    using ok by simp_all
  have d: "(if update then io_return True
       else didCacheChange CONFIG_CACHE_KEY (md5 w (resolved_config w))
              (workDirectoryPath (resolved_config w))) t = (Inr True, t)"
    if "cache t = c" for t
    using sh that by (auto simp add: io_return_run didCacheChange_def shouldConfigureWp_of_def)
  let ?sI = "sL\<lparr>log := log sL @ [Call InitConfig],
       calls := (calls sL)(InitConfig := Suc (calls sL InitConfig))\<rparr>"
  let ?sS = "?sI\<lparr>log := log ?sI @ [Call Stop], calls := (calls ?sI)(Stop := Suc (calls ?sI Stop))\<rparr>"
  let ?sU = "?sS\<lparr>log := [Call (DockerUpOne ''mysql'')],
       calls := (calls ?sS)(DockerUpOne ''mysql'' := Suc (calls ?sS (DockerUpOne ''mysql'')))\<rparr>"
  obtain r2 s2 where D: "downloadSources w (resolved_config w) (?sU\<lparr>log := []\<rparr>) = (r2, s2)"
    by (cases "downloadSources w (resolved_config w) (?sU\<lparr>log := []\<rparr>)")
  have r2: "r2 = Inr ()"
    using downloadSources_not_rejected [OF ok] D by (cases r2) auto
  have "start_services w update (fresh_state c) =
     (Inr (True, resolved_config w),
      s2\<lparr>log := log sL @
          [Call InitConfig, Call Stop, Par [[Call (DockerUpOne ''mysql'')], log s2],
           Call SetupWordPressDirectories,
           Call (DockerUpMany [''wordpress'', ''tests-wordpress''])],
         calls := (calls s2)
           (SetupWordPressDirectories := Suc (calls s2 SetupWordPressDirectories),
            DockerUpMany [''wordpress'', ''tests-wordpress''] :=
              Suc (calls s2 (DockerUpMany [''wordpress'', ''tests-wordpress''])))\<rparr>)"
    unfolding start_services_def
    using L r0 D r2 s
    by (simp add: io_bind_run initConfig_run d cL Promise_all_two call_run io_return_run)
  then show ?thesis using L r0 by auto
qed

text \<open>
  A run that re-provisions and in which no step before the configuration phase is
  rejected: its whole trace, its outcome and the cache it leaves.
\<close>

lemma start_provisioning_run:
  assumes ok: "\<forall>a n. \<not> is_configuring a \<longrightarrow> succeeds w a n"
    and sh: "shouldConfigureWp_of w update c"
  shows "\<exists>sL dl.
    checkForLegacyInstall w (fresh_state c) = (Inr (), sL) \<and>
    log (snd (start w update (fresh_state c))) =
      log sL @
      [Call InitConfig, Call Stop, Par [[Call (DockerUpOne ''mysql'')], dl],
       Call SetupWordPressDirectories,
       Call (DockerUpMany [''wordpress'', ''tests-wordpress''])] @
      phase_log w (resolved_config w) \<and>
    (\<forall>a\<in>set (actions (log sL)). \<not> is_configuring a) \<and>
    (\<forall>a\<in>set (actions dl). \<not> is_configuring a) \<and>
    isl (fst (start w update (fresh_state c))) = (\<not> phase_ok w (resolved_config w)) \<and>
    cache (snd (start w update (fresh_state c))) =
      (if phase_ok w (resolved_config w)
       then c((workDirectoryPath (resolved_config w), CONFIG_CACHE_KEY) \<mapsto>
              md5 w (resolved_config w))
       else c)"
proof -
  from start_services_provisioning [OF ok sh] obtain sL dl s1 where
    L: "checkForLegacyInstall w (fresh_state c) = (Inr (), sL)"
    and S: "start_services w update (fresh_state c) = (Inr (True, resolved_config w), s1)"
    and lg: "log s1 = log sL @
      [Call InitConfig, Call Stop, Par [[Call (DockerUpOne ''mysql'')], dl],
       Call SetupWordPressDirectories,
       Call (DockerUpMany [''wordpress'', ''tests-wordpress''])]"
    by blast
  note fr = start_services_frame [OF S]
  have run: "start w update (fresh_state c) = configure_phase w (resolved_config w) s1"
    using start_run [OF S] by simp
  note ph = configure_phase_run [OF fr(2), of w "resolved_config w"]
  have a: "set (actions (log s1)) =
      set (actions (log sL)) \<union> {InitConfig, Stop, DockerUpOne ''mysql''} \<union> set (actions dl) \<union>
      {SetupWordPressDirectories, DockerUpMany [''wordpress'', ''tests-wordpress'']}"
    unfolding lg by (auto simp add: actions_append actions_Cons actions_Nil actions_def)
  have nL: "\<forall>a\<in>set (actions (log sL)). \<not> is_configuring a"
    and nd: "\<forall>a\<in>set (actions dl). \<not> is_configuring a"
    using fr(3) a by auto
  show ?thesis
    using L lg nL nd ph fr(1) unfolding run by auto
qed

lemma phase_log_after_writable:
  "\<exists>post. phase_log w config = writable_log config @ post \<and>
     (\<forall>e. MakeContentDirectoriesWritable e \<notin> set (actions post))"
proof -
  let ?post = "(if writable_ok w config
     then database_log w @
       (if database_ok w
        then [Par [configure_log w Development, configure_log w Tests]] @
          (if configured_ok w Development \<and> configured_ok w Tests
           then [Call (SetCache CONFIG_CACHE_KEY (md5 w config) (workDirectoryPath config))]
           else [])
        else [])
     else [])"
  have p: "actions_of (Par ls) = concat (map actions ls)" for ls
    using actions_Par [of ls] by (simp add: actions_def)
  have "set (actions ?post) \<subseteq>
      set (actions (database_log w)) \<union> set (actions (configure_log w Development)) \<union>
      set (actions (configure_log w Tests)) \<union>
      {SetCache CONFIG_CACHE_KEY (md5 w config) (workDirectoryPath config)}"
    by (auto simp add: actions_append actions_Cons actions_Nil p simp del: actions_of.simps(3))
  then have "MakeContentDirectoriesWritable e \<notin> set (actions ?post)" for e
    using actions_database_log [of w] actions_configure_log [of w Development]
      actions_configure_log [of w Tests]
    by (auto simp del: actions_of.simps)
  moreover have "phase_log w config = writable_log config @ ?post"
    by (simp add: phase_log_def)
  ultimately show ?thesis by blast
qed

text \<open>When the step that makes the content directories writable runs.\<close>

lemma writable_step_only_if:
  assumes "MakeContentDirectoriesWritable e \<in>
      set (actions (log (snd (start w update (fresh_state c)))))"
  shows "topCoreSource (resolved_config w) = Null \<and> shouldConfigureWp_of w update c"
proof (cases rule: start_fresh_cases [of w update c])
  case (rejected e' s1)
  then show ?thesis using assms by auto
next
  case (skipped s1)
  then show ?thesis using assms by auto
next
  case (configured s1 r s)
  have "MakeContentDirectoriesWritable e \<in> set (actions (phase_log w (resolved_config w)))"
    using assms configured(2) configured(4) configured(6) by (auto simp add: actions_append)
  then show ?thesis using writable_in_phase_log configured(1) by blast
qed

lemma writable_step_if:
  assumes ok: "\<forall>a n. \<not> is_configuring a \<longrightarrow> succeeds w a n"
    and sh: "shouldConfigureWp_of w update c"
  shows "\<exists>pre post. log (snd (start w update (fresh_state c))) =
      pre @ [Call (DockerUpMany [''wordpress'', ''tests-wordpress''])] @
      (if topCoreSource (resolved_config w) = Null
       then [Par [[Call (MakeContentDirectoriesWritable Development)],
                  [Call (MakeContentDirectoriesWritable Tests)]]]
       else []) @ post \<and>
    (\<forall>e. MakeContentDirectoriesWritable e \<notin> set (actions pre)) \<and>
    (\<forall>e. MakeContentDirectoriesWritable e \<notin> set (actions post))"
proof -
  from start_provisioning_run [OF ok sh] obtain sL :: state and dl where
    lg: "log (snd (start w update (fresh_state c))) =
      log sL @
      [Call InitConfig, Call Stop, Par [[Call (DockerUpOne ''mysql'')], dl],
       Call SetupWordPressDirectories,
       Call (DockerUpMany [''wordpress'', ''tests-wordpress''])] @
      phase_log w (resolved_config w)"
    and nL: "\<forall>a\<in>set (actions (log sL)). \<not> is_configuring a"
    and nd: "\<forall>a\<in>set (actions dl). \<not> is_configuring a"
    by blast
  from phase_log_after_writable [of w "resolved_config w"] obtain post where
    ph: "phase_log w (resolved_config w) = writable_log (resolved_config w) @ post"
    and np: "\<forall>e. MakeContentDirectoriesWritable e \<notin> set (actions post)"
    by blast
  let ?pre = "log sL @
      [Call InitConfig, Call Stop, Par [[Call (DockerUpOne ''mysql'')], dl],
       Call SetupWordPressDirectories]"
  have "set (actions ?pre) =
      set (actions (log sL)) \<union> {InitConfig, Stop, DockerUpOne ''mysql''} \<union> set (actions dl) \<union>
      {SetupWordPressDirectories}"
    by (auto simp add: actions_append actions_Cons actions_Nil actions_def)
  then have npre: "\<forall>e. MakeContentDirectoriesWritable e \<notin> set (actions ?pre)"
    using nL nd by auto
  have "log (snd (start w update (fresh_state c))) =
      ?pre @ [Call (DockerUpMany [''wordpress'', ''tests-wordpress''])] @
      (if topCoreSource (resolved_config w) = Null
       then [Par [[Call (MakeContentDirectoriesWritable Development)],
                  [Call (MakeContentDirectoriesWritable Tests)]]]
       else []) @ post"
    unfolding lg ph by (simp add: writable_log_def)
  then show ?thesis using npre np by blast
qed


section \<open>When the checksum is cached\<close>

lemma setCache_only_after_configuration:
  assumes "SetCache k v d \<in> set (actions (log (snd (start w update (fresh_state c)))))"
  shows "k = CONFIG_CACHE_KEY \<and> v = md5 w (resolved_config w) \<and>
      d = workDirectoryPath (resolved_config w) \<and>
      database_ok w \<and> configured_ok w Development \<and> configured_ok w Tests \<and>
      (\<exists>pre. log (snd (start w update (fresh_state c))) =
         pre @ [Par [configure_log w Development, configure_log w Tests],
                Call (SetCache k v d)] \<and>
         (\<forall>k' v' d'. SetCache k' v' d' \<notin> set (actions pre)))"
proof (cases rule: start_fresh_cases [of w update c])
  case (rejected e' s1)
  then show ?thesis using assms by auto
next
  case (skipped s1)
  then show ?thesis using assms by auto
next
  case (configured s1 r s)
  let ?cfg = "resolved_config w"
  have inp: "SetCache k v d \<in> set (actions (phase_log w ?cfg))"
    using assms configured(2) configured(4) configured(6) by (auto simp add: actions_append)
  note f = setCache_in_phase_log [OF inp]
  have eq: "k = CONFIG_CACHE_KEY \<and> v = md5 w ?cfg \<and> d = workDirectoryPath ?cfg"
    using f(1) by simp
  let ?pre = "log s1 @ writable_log ?cfg @ database_log w"
  have "\<forall>k' v' d'. SetCache k' v' d' \<notin> set (actions ?pre)"
    using configured(6) actions_writable_log [of ?cfg] actions_database_log [of w]
    by (auto simp add: actions_append split: if_splits)
  moreover have "log (snd (start w update (fresh_state c))) =
      ?pre @ [Par [configure_log w Development, configure_log w Tests],
              Call (SetCache k v d)]"
    using configured(2) configured(4) f(6) eq by simp
  ultimately show ?thesis using eq f(3) f(4) f(5) by blast
qed

lemma rejected_start_keeps_cache:
  assumes "isl (fst (start w update (fresh_state c)))"
  shows "cache (snd (start w update (fresh_state c))) = c"
proof (cases rule: start_fresh_cases [of w update c])
  case (rejected e' s1)
  then show ?thesis by simp
next
  case (skipped s1)
  then show ?thesis by simp
next
  case (configured s1 r s)
  then show ?thesis using assms by simp
qed

lemma cache_changed_only_by_setCache:
  assumes "cache (snd (start w update (fresh_state c))) \<noteq> c"
  shows "fst (start w update (fresh_state c)) = Inr () \<and>
    cache (snd (start w update (fresh_state c))) =
      c((workDirectoryPath (resolved_config w), CONFIG_CACHE_KEY) \<mapsto>
        md5 w (resolved_config w)) \<and>
    SetCache CONFIG_CACHE_KEY (md5 w (resolved_config w))
        (workDirectoryPath (resolved_config w))
      \<in> set (actions (log (snd (start w update (fresh_state c)))))"
proof (cases rule: start_fresh_cases [of w update c])
  case (rejected e' s1)
  then show ?thesis using assms by simp
next
  case (skipped s1)
  then show ?thesis using assms by simp
next
  case (configured s1 r s)
  let ?cfg = "resolved_config w"
  have ok: "phase_ok w ?cfg" using configured(2) configured(5) assms by (auto split: if_splits)
  then have "\<not> isl r" using configured(3) by simp
  then have r: "r = Inr ()" by (cases r) auto
  have "SetCache CONFIG_CACHE_KEY (md5 w ?cfg) (workDirectoryPath ?cfg)
      \<in> set (actions (phase_log w ?cfg))"
    using ok by (simp add: actions_phase_log phase_ok_def)
  then show ?thesis using configured(2) configured(4) configured(5) ok r
    by (simp add: actions_append)
qed

lemma start_again_provisions:
  assumes sh: "update' \<or> c (workDirectoryPath (resolved_config w'), CONFIG_CACHE_KEY) \<noteq>
      Some (md5 w' (resolved_config w'))"
    and ok: "\<forall>a n. a \<noteq> CheckDatabaseConnection \<and> (\<forall>e. a \<noteq> ConfigureWordPress e) \<longrightarrow>
      succeeds w' a n"
  shows "Call Stop \<in> set (log (snd (start w' update' (fresh_state c)))) \<and>
    Call SetupWordPressDirectories \<in> set (log (snd (start w' update' (fresh_state c)))) \<and>
    Call CheckDatabaseConnection \<in> set (log (snd (start w' update' (fresh_state c))))"
proof -
  have pre_ok: "\<forall>a n. \<not> is_configuring a \<longrightarrow> succeeds w' a n"
  proof (intro allI impI)
    fix a n assume "\<not> is_configuring a"
    then have "a \<noteq> CheckDatabaseConnection \<and> (\<forall>e. a \<noteq> ConfigureWordPress e)" by auto
    then show "succeeds w' a n" using ok by blast
  qed
  have sh': "shouldConfigureWp_of w' update' c" using sh by (simp add: shouldConfigureWp_of_def)
  have wok: "writable_ok w' (resolved_config w')" using ok by (simp add: writable_ok_def)
  from start_provisioning_run [OF pre_ok sh'] obtain sL :: state and dl where
    lg: "log (snd (start w' update' (fresh_state c))) =
      log sL @
      [Call InitConfig, Call Stop, Par [[Call (DockerUpOne ''mysql'')], dl],
       Call SetupWordPressDirectories,
       Call (DockerUpMany [''wordpress'', ''tests-wordpress''])] @
      phase_log w' (resolved_config w')"
    by blast
  have "Call CheckDatabaseConnection \<in> set (database_log w')"
    by (simp add: database_log_def split: option.splits)
  then have "Call CheckDatabaseConnection \<in> set (phase_log w' (resolved_config w'))"
    using wok by (simp add: phase_log_def)
  then show ?thesis unfolding lg by simp
qed

section \<open>The claims about \<open>start\<close>\<close>

text \<open>
  C1: without \<open>update\<close> and with the checksum of the resolved configuration in the
  cache, the trace of \<open>start\<close> after the check for legacy installs is a prefix of:
  \<open>initConfig\<close>; \<open>Promise.all\<close> of \<open>upOne( 'mysql' )\<close> and nothing (no
  \<open>downloadSources\<close>); \<open>upMany( [ 'wordpress', 'tests-wordpress' ] )\<close>.  So neither
  \<open>downloadSources\<close> nor \<open>setupWordPressDirectories\<close> nor \<open>configureWordPress\<close> is invoked
  (nor \<open>stop\<close>), and the cache is left as it is.  When the legacy check, \<open>initConfig\<close> and
  the two docker-compose calls are not rejected, all three steps are in the trace and
  \<open>start\<close> resolves.
\<close>

theorem start_skips_provisioning_on_cached_checksum:
  assumes "c (workDirectoryPath (resolved_config w), CONFIG_CACHE_KEY) =
      Some (md5 w (resolved_config w))"
  shows "cache (snd (start w False (fresh_state c))) = c \<and>
    (\<exists>k. log (snd (start w False (fresh_state c))) =
       log (snd (checkForLegacyInstall w (fresh_state c))) @
       take k [Call InitConfig, Par [[Call (DockerUpOne ''mysql'')], []],
               Call (DockerUpMany [''wordpress'', ''tests-wordpress''])]) \<and>
    (\<forall>a\<in>set (actions (log (snd (checkForLegacyInstall w (fresh_state c))))).
       is_legacy_check a) \<and>
    (fst (checkForLegacyInstall w (fresh_state c)) = Inr () \<and> succeeds w InitConfig 0 \<and>
     succeeds w (DockerUpOne ''mysql'') 0 \<and>
     succeeds w (DockerUpMany [''wordpress'', ''tests-wordpress'']) 0 \<longrightarrow>
       fst (start w False (fresh_state c)) = Inr () \<and>
       log (snd (start w False (fresh_state c))) =
         log (snd (checkForLegacyInstall w (fresh_state c))) @
         [Call InitConfig, Par [[Call (DockerUpOne ''mysql'')], []],
          Call (DockerUpMany [''wordpress'', ''tests-wordpress''])])"
proof -
  obtain r0 sL where L: "checkForLegacyInstall w (fresh_state c) = (r0, sL)"
    by (cases "checkForLegacyInstall w (fresh_state c)")
  note run = start_skip_run [OF assms L]
  have legacy: "\<forall>a\<in>set (actions (log sL)). is_legacy_check a"
    using framesD(3) [OF frames_checkForLegacyInstall L] by (auto simp add: fresh_state_simps)
  have ok: "fst (start w False (fresh_state c)) = Inr () \<and>
       log (snd (start w False (fresh_state c))) =
         log sL @
         [Call InitConfig, Par [[Call (DockerUpOne ''mysql'')], []],
          Call (DockerUpMany [''wordpress'', ''tests-wordpress''])]"
    if "r0 = Inr ()" and "succeeds w InitConfig 0" and "succeeds w (DockerUpOne ''mysql'') 0"
      and "succeeds w (DockerUpMany [''wordpress'', ''tests-wordpress'']) 0"
  proof -
    have "\<not> isl (fst (start w False (fresh_state c)))" using run(3) that by simp
    then have "fst (start w False (fresh_state c)) = Inr ()"
      by (cases "fst (start w False (fresh_state c))") auto
    then show ?thesis using run(2) that by simp
  qed
  show ?thesis using run(1) run(2) legacy ok L by auto
qed

lemma always_world_legacy:
  "fst (checkForLegacyInstall (world_of always config_default) (fresh_state c)) = Inr ()"
proof -
  obtain r s where L: "checkForLegacyInstall (world_of always config_default) (fresh_state c) = (r, s)"
    by (cases "checkForLegacyInstall (world_of always config_default) (fresh_state c)")
  have "\<forall>a n. \<not> is_configuring a \<longrightarrow> succeeds (world_of always config_default) a n"
    by (simp add: world_of_def always_def)
  from checkForLegacyInstall_not_rejected [OF this] L have "r = Inr ()"
    by (cases r) auto
  then show ?thesis using L by simp
qed

theorem start_skips_provisioning_on_cached_checksum_witness:
  "cached_checksum
     (workDirectoryPath (resolved_config (world_of always config_default)), CONFIG_CACHE_KEY) =
     Some (md5 (world_of always config_default)
       (resolved_config (world_of always config_default))) \<and>
   fst (start (world_of always config_default) False (fresh_state cached_checksum)) = Inr () \<and>
   log (snd (start (world_of always config_default) False (fresh_state cached_checksum))) =
     log (snd (checkForLegacyInstall (world_of always config_default)
       (fresh_state cached_checksum))) @
     [Call InitConfig, Par [[Call (DockerUpOne ''mysql'')], []],
      Call (DockerUpMany [''wordpress'', ''tests-wordpress''])] \<and>
   cache (snd (start (world_of always config_default) False (fresh_state cached_checksum))) =
     cached_checksum"
proof -
  let ?w = "world_of always config_default"
  have hit: "cached_checksum (workDirectoryPath (resolved_config ?w), CONFIG_CACHE_KEY) =
     Some (md5 ?w (resolved_config ?w))"
    by (simp add: cached_checksum_def world_of_def config_default_def config_of_def
        CONFIG_CACHE_KEY_def)
  have s: "succeeds ?w InitConfig 0" "succeeds ?w (DockerUpOne ''mysql'') 0"
    "succeeds ?w (DockerUpMany [''wordpress'', ''tests-wordpress'']) 0"
    by (simp_all add: world_of_def always_def)
  note t = start_skips_provisioning_on_cached_checksum
    [where c = cached_checksum and w = "world_of always config_default", OF hit]
  from t always_world_legacy [of cached_checksum] s hit
  show ?thesis by blast
qed

text \<open>
  C4, as stated: the step runs for an environment except when that environment's core
  is a local or bundled source.  It fails both ways.  With no core source anywhere
  (the bundled WordPress) the step runs for the development environment; with a git
  core source at the top level and in both environments it runs for neither.
\<close>

theorem content_directories_writable_counterexample:
  "coreSource (development (env (resolved_config (world_of always config_default)))) = None \<and>
   MakeContentDirectoriesWritable Development \<in>
     set (actions (log (snd (start (world_of always config_default) True
       (fresh_state Map.empty))))) \<and>
   map_option type (coreSource (development (env (resolved_config
       (world_of always config_git_core))))) = Some ''git'' \<and>
   MakeContentDirectoriesWritable Development \<notin>
     set (actions (log (snd (start (world_of always config_git_core) True
       (fresh_state Map.empty)))))"
proof -
  have ok: "\<forall>a n. \<not> is_configuring a \<longrightarrow> succeeds (world_of always cfg) a n" for cfg
    by (simp add: world_of_def always_def)
  have sh: "shouldConfigureWp_of (world_of always cfg) True Map.empty" for cfg
    by (simp add: shouldConfigureWp_of_def)
  have n: "topCoreSource (resolved_config (world_of always config_default)) = Null"
    by (simp add: world_of_def config_default_def config_of_def)
  from writable_step_if [OF ok sh, of config_default] n
  have 1: "MakeContentDirectoriesWritable Development \<in>
     set (actions (log (snd (start (world_of always config_default) True
       (fresh_state Map.empty)))))"
    by (auto simp add: actions_append actions_Cons actions_def)
  have g: "topCoreSource (resolved_config (world_of always config_git_core)) \<noteq> Null"
    by (simp add: world_of_def config_git_core_def config_of_def)
  have 2: "MakeContentDirectoriesWritable Development \<notin>
     set (actions (log (snd (start (world_of always config_git_core) True
       (fresh_state Map.empty)))))"
    using writable_step_only_if [of Development "world_of always config_git_core" True Map.empty]
      g by blast
  have 3: "coreSource (development (env (resolved_config (world_of always config_default)))) = None"
    by (simp add: world_of_def config_default_def config_of_def service_config_def)
  have 4: "map_option type (coreSource (development (env (resolved_config
       (world_of always config_git_core))))) = Some ''git''"
    by (simp add: world_of_def config_git_core_def config_of_def service_config_def git_core_def)
  from 1 2 3 4 show ?thesis by simp
qed

text \<open>
  C4, amended: in a run that re-provisions, the step runs for an environment without a
  core source (the bundled WordPress, whose content directories are in a volume of
  docker), in the \<open>Promise.all\<close> right after the WordPress services are started, and it
  is skipped for an environment with a core source, local or downloaded, whose
  \<open>wp-content\<close> is on the user's file system.  This for an environment whose own
  \<open>coreSource\<close> is null exactly when the top-level \<open>config.coreSource\<close> is, the property
  that \<open>start\<close> tests.  The step never runs in a run that does not re-provision.
\<close>

theorem content_directories_writable_iff_core_null:
  assumes agree: "(topCoreSource (resolved_config w) = Null) =
      (coreSource (env_config e (resolved_config w)) = None)"
  shows "(MakeContentDirectoriesWritable e \<in>
        set (actions (log (snd (start w update (fresh_state c))))) \<longrightarrow>
      coreSource (env_config e (resolved_config w)) = None \<and>
      shouldConfigureWp_of w update c) \<and>
    ((\<forall>a n. \<not> is_configuring a \<longrightarrow> succeeds w a n) \<and> shouldConfigureWp_of w update c \<longrightarrow>
       (if coreSource (env_config e (resolved_config w)) = None
        then \<exists>pre mid post. log (snd (start w update (fresh_state c))) =
            pre @ [Call (DockerUpMany [''wordpress'', ''tests-wordpress'']), Par mid] @ post \<and>
            [Call (MakeContentDirectoriesWritable e)] \<in> set mid \<and>
            MakeContentDirectoriesWritable e \<notin> set (actions pre) \<and>
            MakeContentDirectoriesWritable e \<notin> set (actions post)
        else MakeContentDirectoriesWritable e \<notin>
            set (actions (log (snd (start w update (fresh_state c)))))))"
proof -
  let ?R = "start w update (fresh_state c)"
  have only: "coreSource (env_config e (resolved_config w)) = None \<and>
      shouldConfigureWp_of w update c"
    if "MakeContentDirectoriesWritable e \<in> set (actions (log (snd ?R)))"
    using writable_step_only_if [OF that] agree by simp
  have runs: "\<exists>pre mid post. log (snd ?R) =
            pre @ [Call (DockerUpMany [''wordpress'', ''tests-wordpress'']), Par mid] @ post \<and>
            [Call (MakeContentDirectoriesWritable e)] \<in> set mid \<and>
            MakeContentDirectoriesWritable e \<notin> set (actions pre) \<and>
            MakeContentDirectoriesWritable e \<notin> set (actions post)"
    if ok: "\<forall>a n. \<not> is_configuring a \<longrightarrow> succeeds w a n"
      and sh: "shouldConfigureWp_of w update c"
      and none: "coreSource (env_config e (resolved_config w)) = None"
  proof -
    have top: "topCoreSource (resolved_config w) = Null" using agree none by simp
    from writable_step_if [OF ok sh] top obtain pre post where
      lg: "log (snd ?R) =
        pre @ [Call (DockerUpMany [''wordpress'', ''tests-wordpress''])] @
        [Par [[Call (MakeContentDirectoriesWritable Development)],
              [Call (MakeContentDirectoriesWritable Tests)]]] @ post"
      and np: "\<forall>e. MakeContentDirectoriesWritable e \<notin> set (actions pre)"
      and nq: "\<forall>e. MakeContentDirectoriesWritable e \<notin> set (actions post)"
      by auto
    let ?mid = "[[Call (MakeContentDirectoriesWritable Development)],
              [Call (MakeContentDirectoriesWritable Tests)]]"
    have "[Call (MakeContentDirectoriesWritable e)] \<in> set ?mid" by (cases e) simp_all
    moreover have "log (snd ?R) =
        pre @ [Call (DockerUpMany [''wordpress'', ''tests-wordpress'']), Par ?mid] @ post"
      using lg by simp
    ultimately show ?thesis using np nq by blast
  qed
  show ?thesis using only runs by auto
qed

theorem content_directories_writable_iff_core_null_witness:
  "coreSource (env_config Development (resolved_config (world_of always config_default))) =
     None \<and>
   topCoreSource (resolved_config (world_of always config_default)) = Null \<and>
   MakeContentDirectoriesWritable Development \<in>
     set (actions (log (snd (start (world_of always config_default) True
       (fresh_state Map.empty))))) \<and>
   coreSource (env_config Tests (resolved_config (world_of always config_git_core))) =
     Some git_core \<and>
   topCoreSource (resolved_config (world_of always config_git_core)) = Val git_core \<and>
   MakeContentDirectoriesWritable Tests \<notin>
     set (actions (log (snd (start (world_of always config_git_core) True
       (fresh_state Map.empty)))))"
proof -
  let ?d = "world_of always config_default"
  let ?g = "world_of always config_git_core"
  have ok: "\<forall>a n. \<not> is_configuring a \<longrightarrow> succeeds (world_of always cfg) a n" for cfg
    by (simp add: world_of_def always_def)
  have sh: "shouldConfigureWp_of (world_of always cfg) True Map.empty" for cfg
    by (simp add: shouldConfigureWp_of_def)
  have d1: "coreSource (env_config Development (resolved_config ?d)) = None"
    and d2: "topCoreSource (resolved_config ?d) = Null"
    by (simp_all add: env_config_def world_of_def config_default_def config_of_def
        service_config_def)
  have g1: "coreSource (env_config Tests (resolved_config ?g)) = Some git_core"
    and g2: "topCoreSource (resolved_config ?g) = Val git_core"
    by (simp_all add: env_config_def world_of_def config_git_core_def config_of_def
        service_config_def)
  have ad: "(topCoreSource (resolved_config ?d) = Null) =
      (coreSource (env_config Development (resolved_config ?d)) = None)"
    using d1 d2 by simp
  have ag: "(topCoreSource (resolved_config ?g) = Null) =
      (coreSource (env_config Tests (resolved_config ?g)) = None)"
    using g1 g2 by simp
  from content_directories_writable_iff_core_null [OF ad, of True Map.empty] ok sh d1
  obtain pre mid post where
    lg: "log (snd (start ?d True (fresh_state Map.empty))) =
      pre @ [Call (DockerUpMany [''wordpress'', ''tests-wordpress'']), Par mid] @ post"
    and m: "[Call (MakeContentDirectoriesWritable Development)] \<in> set mid"
    by auto
  have "MakeContentDirectoriesWritable Development \<in>
      set (actions [Call (MakeContentDirectoriesWritable Development)])"
    by (simp add: actions_Call)
  with m have "MakeContentDirectoriesWritable Development \<in> set (actions [Par mid])"
    unfolding actions_Par by (simp only: set_concat set_map) blast
  moreover have "log (snd (start ?d True (fresh_state Map.empty))) =
      (pre @ [Call (DockerUpMany [''wordpress'', ''tests-wordpress''])]) @ [Par mid] @ post"
    using lg by simp
  ultimately have 1: "MakeContentDirectoriesWritable Development \<in>
     set (actions (log (snd (start ?d True (fresh_state Map.empty)))))"
    by (simp only: actions_append set_append) blast
  from content_directories_writable_iff_core_null [OF ag, of True Map.empty] ok sh g1
  have 2: "MakeContentDirectoriesWritable Tests \<notin>
     set (actions (log (snd (start ?g True (fresh_state Map.empty)))))"
    by auto
  from d1 d2 g1 g2 1 2 show ?thesis by blast
qed


text \<open>
  C6 (with \<open>retry\<close> as the spec describes it): in a run that re-provisions and whose
  first database check fails, the check is retried up to 30 times with a sleep of 1000
  ms between two retries.  If retry number \<open>j + 1\<close> is the first to succeed, the trace
  continues with exactly one sleep of 4000 ms and then one \<open>Promise.all\<close> with the two
  configurations side by side, each attempted once, or twice with the default delay
  in between when the first attempt fails.  If all 30 retries fail, \<open>start\<close> is rejected
  after them: no settle delay, no configuration.  (Every call other than the database
  check and the configuration is taken to succeed.)
\<close>

theorem database_check_retried_then_both_configured:
  assumes ok: "\<forall>a n. a \<noteq> CheckDatabaseConnection \<and> (\<forall>e. a \<noteq> ConfigureWordPress e) \<longrightarrow>
      succeeds w a n"
    and sh: "shouldConfigureWp_of w update c"
    and first: "\<not> succeeds w CheckDatabaseConnection 0"
  shows "(\<forall>j<30. (\<forall>i<j. \<not> succeeds w CheckDatabaseConnection (Suc i)) \<and>
            succeeds w CheckDatabaseConnection (Suc j) \<longrightarrow>
      (\<exists>pre post. log (snd (start w update (fresh_state c))) =
         pre @ [Call CheckDatabaseConnection] @
         concat (replicate j [Call CheckDatabaseConnection, Call (Sleep 1000)]) @
         [Call CheckDatabaseConnection, Call (Sleep 4000)] @
         [Par [if succeeds w (ConfigureWordPress Development) 0
               then [Call (ConfigureWordPress Development)]
               else [Call (ConfigureWordPress Development),
                     Call (Sleep (retry_default_delay w)),
                     Call (ConfigureWordPress Development)],
               if succeeds w (ConfigureWordPress Tests) 0
               then [Call (ConfigureWordPress Tests)]
               else [Call (ConfigureWordPress Tests),
                     Call (Sleep (retry_default_delay w)),
                     Call (ConfigureWordPress Tests)]]] @ post \<and>
         (\<forall>a\<in>set (actions pre). a \<noteq> CheckDatabaseConnection \<and> (\<forall>ms. a \<noteq> Sleep ms) \<and>
            (\<forall>e. a \<noteq> ConfigureWordPress e)) \<and>
         (\<forall>a\<in>set (actions post). a \<noteq> CheckDatabaseConnection \<and> (\<forall>ms. a \<noteq> Sleep ms) \<and>
            (\<forall>e. a \<noteq> ConfigureWordPress e)))) \<and>
    ((\<forall>i<30. \<not> succeeds w CheckDatabaseConnection (Suc i)) \<longrightarrow>
      isl (fst (start w update (fresh_state c))) \<and>
      (\<exists>pre. log (snd (start w update (fresh_state c))) =
         pre @ [Call CheckDatabaseConnection] @
         concat (replicate 29 [Call CheckDatabaseConnection, Call (Sleep 1000)]) @
         [Call CheckDatabaseConnection] \<and>
         (\<forall>a\<in>set (actions pre). a \<noteq> CheckDatabaseConnection \<and> (\<forall>ms. a \<noteq> Sleep ms) \<and>
            (\<forall>e. a \<noteq> ConfigureWordPress e))))"
proof -
  let ?cfg = "resolved_config w"
  have pre_ok: "\<forall>a n. \<not> is_configuring a \<longrightarrow> succeeds w a n"
  proof (intro allI impI)
    fix a n assume "\<not> is_configuring a"
    then have "a \<noteq> CheckDatabaseConnection \<and> (\<forall>e. a \<noteq> ConfigureWordPress e)" by auto
    then show "succeeds w a n" using ok by blast
  qed
  have wok: "writable_ok w ?cfg" using ok by (simp add: writable_ok_def)
  from start_provisioning_run [OF pre_ok sh] obtain sL :: state and dl where
    lg: "log (snd (start w update (fresh_state c))) =
      log sL @
      [Call InitConfig, Call Stop, Par [[Call (DockerUpOne ''mysql'')], dl],
       Call SetupWordPressDirectories,
       Call (DockerUpMany [''wordpress'', ''tests-wordpress''])] @
      phase_log w ?cfg"
    and nL: "\<forall>a\<in>set (actions (log sL)). \<not> is_configuring a"
    and nd: "\<forall>a\<in>set (actions dl). \<not> is_configuring a"
    and res: "isl (fst (start w update (fresh_state c))) = (\<not> phase_ok w ?cfg)"
    by blast
  let ?pre = "log sL @
      [Call InitConfig, Call Stop, Par [[Call (DockerUpOne ''mysql'')], dl],
       Call SetupWordPressDirectories,
       Call (DockerUpMany [''wordpress'', ''tests-wordpress''])] @ writable_log ?cfg"
  have "set (actions ?pre) =
      set (actions (log sL)) \<union> {InitConfig, Stop, DockerUpOne ''mysql''} \<union> set (actions dl) \<union>
      {SetupWordPressDirectories, DockerUpMany [''wordpress'', ''tests-wordpress'']} \<union>
      set (actions (writable_log ?cfg))"
    by (auto simp add: actions_append actions_Cons actions_Nil actions_def)
  then have npre: "\<forall>a\<in>set (actions ?pre). a \<noteq> CheckDatabaseConnection \<and>
      (\<forall>ms. a \<noteq> Sleep ms) \<and> (\<forall>e. a \<noteq> ConfigureWordPress e)"
    using nL nd by (auto simp add: actions_writable_log split: if_splits)
  have found: "\<exists>pre post. log (snd (start w update (fresh_state c))) =
         pre @ [Call CheckDatabaseConnection] @
         concat (replicate j [Call CheckDatabaseConnection, Call (Sleep 1000)]) @
         [Call CheckDatabaseConnection, Call (Sleep 4000)] @
         [Par [if succeeds w (ConfigureWordPress Development) 0
               then [Call (ConfigureWordPress Development)]
               else [Call (ConfigureWordPress Development),
                     Call (Sleep (retry_default_delay w)),
                     Call (ConfigureWordPress Development)],
               if succeeds w (ConfigureWordPress Tests) 0
               then [Call (ConfigureWordPress Tests)]
               else [Call (ConfigureWordPress Tests),
                     Call (Sleep (retry_default_delay w)),
                     Call (ConfigureWordPress Tests)]]] @ post \<and>
         (\<forall>a\<in>set (actions pre). a \<noteq> CheckDatabaseConnection \<and> (\<forall>ms. a \<noteq> Sleep ms) \<and>
            (\<forall>e. a \<noteq> ConfigureWordPress e)) \<and>
         (\<forall>a\<in>set (actions post). a \<noteq> CheckDatabaseConnection \<and> (\<forall>ms. a \<noteq> Sleep ms) \<and>
            (\<forall>e. a \<noteq> ConfigureWordPress e))"
    if j: "j < 30" and before: "\<forall>i<j. \<not> succeeds w CheckDatabaseConnection (Suc i)"
      and at: "succeeds w CheckDatabaseConnection (Suc j)" for j
  proof -
    have fs: "first_success w CheckDatabaseConnection 1 30 = Some j"
      using j before at by (simp add: first_success_Some)
    then have dok: "database_ok w" by (simp add: database_ok_def)
    have dl: "database_log w = [Call CheckDatabaseConnection] @
         concat (replicate j [Call CheckDatabaseConnection, Call (Sleep 1000)]) @
         [Call CheckDatabaseConnection, Call (Sleep 4000)]"
      using first fs by (simp add: database_log_def attempts_log_def)
    let ?post = "(if configured_ok w Development \<and> configured_ok w Tests
           then [Call (SetCache CONFIG_CACHE_KEY (md5 w ?cfg) (workDirectoryPath ?cfg))]
           else [])"
    have npost: "\<forall>a\<in>set (actions ?post). a \<noteq> CheckDatabaseConnection \<and>
        (\<forall>ms. a \<noteq> Sleep ms) \<and> (\<forall>e. a \<noteq> ConfigureWordPress e)"
      by (simp add: actions_Call actions_Nil)
    have "phase_log w ?cfg = writable_log ?cfg @ database_log w @
        [Par [configure_log w Development, configure_log w Tests]] @ ?post"
      using wok dok by (simp add: phase_log_def)
    then have "log (snd (start w update (fresh_state c))) =
         ?pre @ [Call CheckDatabaseConnection] @
         concat (replicate j [Call CheckDatabaseConnection, Call (Sleep 1000)]) @
         [Call CheckDatabaseConnection, Call (Sleep 4000)] @
         [Par [configure_log w Development, configure_log w Tests]] @ ?post"
      unfolding lg dl by simp
    then show ?thesis using npre npost unfolding configure_log_def by blast
  qed
  have exhausted: "isl (fst (start w update (fresh_state c))) \<and>
      (\<exists>pre. log (snd (start w update (fresh_state c))) =
         pre @ [Call CheckDatabaseConnection] @
         concat (replicate 29 [Call CheckDatabaseConnection, Call (Sleep 1000)]) @
         [Call CheckDatabaseConnection] \<and>
         (\<forall>a\<in>set (actions pre). a \<noteq> CheckDatabaseConnection \<and> (\<forall>ms. a \<noteq> Sleep ms) \<and>
            (\<forall>e. a \<noteq> ConfigureWordPress e)))"
    if none: "\<forall>i<30. \<not> succeeds w CheckDatabaseConnection (Suc i)"
  proof -
    have fs: "first_success w CheckDatabaseConnection 1 30 = None"
      using none by (simp add: first_success_None)
    then have dok: "\<not> database_ok w" using first by (simp add: database_ok_def)
    have dl: "database_log w = [Call CheckDatabaseConnection] @
         concat (replicate 29 [Call CheckDatabaseConnection, Call (Sleep 1000)]) @
         [Call CheckDatabaseConnection]"
      using first fs by (simp add: database_log_def attempts_log_def)
    have "phase_log w ?cfg = writable_log ?cfg @ database_log w"
      using wok dok by (simp add: phase_log_def)
    then have "log (snd (start w update (fresh_state c))) =
         ?pre @ [Call CheckDatabaseConnection] @
         concat (replicate 29 [Call CheckDatabaseConnection, Call (Sleep 1000)]) @
         [Call CheckDatabaseConnection]"
      unfolding lg dl by simp
    moreover have "isl (fst (start w update (fresh_state c)))"
      using res dok by (simp add: phase_ok_def)
    ultimately show ?thesis using npre by blast
  qed
  from found exhausted show ?thesis by blast
qed

theorem database_check_retried_then_both_configured_witness:
  "\<not> succeeds (world_of slow_database config_default) CheckDatabaseConnection 0 \<and>
   shouldConfigureWp_of (world_of slow_database config_default) False Map.empty \<and>
   succeeds (world_of slow_database config_default) CheckDatabaseConnection 11 \<and>
   (\<exists>pre post.
      log (snd (start (world_of slow_database config_default) False (fresh_state Map.empty))) =
        pre @ [Call CheckDatabaseConnection] @
        concat (replicate 10 [Call CheckDatabaseConnection, Call (Sleep 1000)]) @
        [Call CheckDatabaseConnection, Call (Sleep 4000)] @
        [Par [[Call (ConfigureWordPress Development), Call (Sleep 5000),
               Call (ConfigureWordPress Development)],
              [Call (ConfigureWordPress Tests)]]] @ post)"
proof -
  let ?w = "world_of slow_database config_default"
  have ok: "\<forall>a n. a \<noteq> CheckDatabaseConnection \<and> (\<forall>e. a \<noteq> ConfigureWordPress e) \<longrightarrow>
      succeeds ?w a n"
    by (auto simp add: world_of_def slow_database_def split: action.splits)
  have sh: "shouldConfigureWp_of ?w False Map.empty"
    by (simp add: shouldConfigureWp_of_def)
  have first: "\<not> succeeds ?w CheckDatabaseConnection 0"
    by (simp add: world_of_def slow_database_def)
  have before: "\<forall>i<10. \<not> succeeds ?w CheckDatabaseConnection (Suc i)"
    by (simp add: world_of_def slow_database_def)
  have at: "succeeds ?w CheckDatabaseConnection (Suc 10)"
    by (simp add: world_of_def slow_database_def)
  have cd: "\<not> succeeds ?w (ConfigureWordPress Development) 0"
    and ct: "succeeds ?w (ConfigureWordPress Tests) 0"
    and dly: "retry_default_delay ?w = 5000"
    by (simp_all add: world_of_def slow_database_def)
  from database_check_retried_then_both_configured
    [OF ok sh first, THEN conjunct1, rule_format, of 10] before at cd ct dly
  have "\<exists>pre post. log (snd (start ?w False (fresh_state Map.empty))) =
         pre @ [Call CheckDatabaseConnection] @
         concat (replicate 10 [Call CheckDatabaseConnection, Call (Sleep 1000)]) @
         [Call CheckDatabaseConnection, Call (Sleep 4000)] @
         [Par [[Call (ConfigureWordPress Development), Call (Sleep 5000),
                Call (ConfigureWordPress Development)],
               [Call (ConfigureWordPress Tests)]]] @ post"
    by auto
  then show ?thesis using first sh at by simp
qed

lemma never_configures_pre_ok:
  "\<forall>a n. \<not> is_configuring a \<longrightarrow> succeeds (world_of never_configures config_default) a n"
  by (auto simp add: world_of_def never_configures_def split: action.splits)

lemma failed_update_facts:
  "isl (fst failed_update)"
  "cache (snd failed_update) = cached_checksum"
  "ConfigureWordPress Development \<in> set (actions (log (snd failed_update)))"
  "ConfigureWordPress Tests \<in> set (actions (log (snd failed_update)))"
proof -
  let ?w = "world_of never_configures config_default"
  have sh: "shouldConfigureWp_of ?w True cached_checksum"
    by (simp add: shouldConfigureWp_of_def)
  have nc: "\<not> configured_ok ?w Development"
    by (simp add: configured_ok_def world_of_def never_configures_def)
  then have nok: "\<not> phase_ok ?w (resolved_config ?w)" by (simp add: phase_ok_def)
  have wok: "writable_ok ?w (resolved_config ?w)" and dok: "database_ok ?w"
    by (simp_all add: writable_ok_def database_ok_def world_of_def never_configures_def)
  from start_provisioning_run [OF never_configures_pre_ok sh] obtain sL :: state and dl where
    lg: "log (snd failed_update) =
      log sL @
      [Call InitConfig, Call Stop, Par [[Call (DockerUpOne ''mysql'')], dl],
       Call SetupWordPressDirectories,
       Call (DockerUpMany [''wordpress'', ''tests-wordpress''])] @
      phase_log ?w (resolved_config ?w)"
    and res: "isl (fst failed_update) = (\<not> phase_ok ?w (resolved_config ?w))"
    and ch: "cache (snd failed_update) =
      (if phase_ok ?w (resolved_config ?w)
       then cached_checksum((workDirectoryPath (resolved_config ?w), CONFIG_CACHE_KEY) \<mapsto>
              md5 ?w (resolved_config ?w))
       else cached_checksum)"
    unfolding failed_update_def by blast
  show "isl (fst failed_update)" using res nok by simp
  show "cache (snd failed_update) = cached_checksum" using ch nok by simp
  have "ConfigureWordPress e \<in> set (actions (phase_log ?w (resolved_config ?w)))" for e
    using wok dok by (cases e) (simp_all add: actions_phase_log configure_log_def actions_Cons actions_Nil)
  then have cw: "ConfigureWordPress e \<in>
      set (actions (pre @ mid @ phase_log ?w (resolved_config ?w)))" for e pre mid
    by (simp add: actions_append)
  show "ConfigureWordPress Development \<in> set (actions (log (snd failed_update)))"
    unfolding lg by (rule cw)
  show "ConfigureWordPress Tests \<in> set (actions (log (snd failed_update)))"
    unfolding lg by (rule cw)
qed

lemma no_legacy_installs:
  "checkForLegacyInstall (world_of all_but_access config_default) (fresh_state c) =
    (Inr (), \<lparr>log = [Par [[Call (FsAccess ''../plugin-wordpress'')],
                          [Call (FsAccess ''../plugin-tests-wordpress'')]]],
              calls = (\<lambda>a. if a = FsAccess ''../plugin-wordpress'' \<or>
                               a = FsAccess ''../plugin-tests-wordpress'' then 1 else 0),
              cache = c\<rparr>)"
  by (simp add: checkForLegacyInstall_def world_of_def all_but_access_def fresh_state_def
      Promise_all_def io_bind_def io_catch_def io_return_def call_def fun_eq_iff)

text \<open>
  C5, as stated, does not hold: after a forced update that failed at the configuration of
  WordPress (rejected, both configurations attempted, the cache as it was), with the
  checksum of the configuration in the cache since an earlier start, the next \<open>start\<close>
  without \<open>update\<close> resolves without \<open>stop\<close>, \<open>downloadSources\<close>,
  \<open>setupWordPressDirectories\<close> or any step of the configuration.
\<close>

theorem start_after_failed_update_counterexample:
  "isl (fst failed_update) \<and>
   ConfigureWordPress Development \<in> set (actions (log (snd failed_update))) \<and>
   ConfigureWordPress Tests \<in> set (actions (log (snd failed_update))) \<and>
   cache (snd failed_update) = cached_checksum \<and>
   fst start_after_failed_update = Inr () \<and>
   log (snd start_after_failed_update) =
     [Par [[Call (FsAccess ''../plugin-wordpress'')],
           [Call (FsAccess ''../plugin-tests-wordpress'')]],
      Call InitConfig,
      Par [[Call (DockerUpOne ''mysql'')], []],
      Call (DockerUpMany [''wordpress'', ''tests-wordpress''])]"
proof -
  let ?w = "world_of all_but_access config_default"
  have hit: "cached_checksum (workDirectoryPath (resolved_config ?w), CONFIG_CACHE_KEY) =
      Some (md5 ?w (resolved_config ?w))"
    by (simp add: cached_checksum_def world_of_def config_default_def config_of_def
        CONFIG_CACHE_KEY_def)
  have s: "succeeds ?w InitConfig 0" "succeeds ?w (DockerUpOne ''mysql'') 0"
    "succeeds ?w (DockerUpMany [''wordpress'', ''tests-wordpress'']) 0"
    by (simp_all add: world_of_def all_but_access_def)
  note run = start_skip_run [where w = ?w and c = cached_checksum, OF hit no_legacy_installs]
  have "\<not> isl (fst (start ?w False (fresh_state cached_checksum)))"
    using run(3) s by simp
  then have r: "fst (start ?w False (fresh_state cached_checksum)) = Inr ()"
    by (cases "fst (start ?w False (fresh_state cached_checksum))") auto
  have l: "log (snd (start ?w False (fresh_state cached_checksum))) =
     [Par [[Call (FsAccess ''../plugin-wordpress'')],
           [Call (FsAccess ''../plugin-tests-wordpress'')]],
      Call InitConfig,
      Par [[Call (DockerUpOne ''mysql'')], []],
      Call (DockerUpMany [''wordpress'', ''tests-wordpress''])]"
    using run(2) s by simp
  show ?thesis
    using failed_update_facts r l by (simp add: start_after_failed_update_def)
qed

text \<open>
  C5, amended.  \<open>setCache\<close> is invoked only for the checksum of the configuration, only
  after the database was reached and the configuration of both environments succeeded,
  and as the last step, right after the \<open>Promise.all\<close> of the two configurations.  A
  rejected \<open>start\<close> leaves the cache as it was, and the cache changes only in a \<open>start\<close>
  that resolves, by that one entry.  After a rejected \<open>start\<close>, a \<open>start\<close> of the same
  configuration provisions again (\<open>stop\<close>, \<open>setupWordPressDirectories\<close>, the database
  check) when it is forced by \<open>update\<close> or the checksum in the cache is not that of the
  configuration (every call of it other than the database check and the configuration
  taken to succeed).
\<close>

theorem checksum_cached_only_on_full_success:
  "(\<forall>k v d. SetCache k v d \<in> set (actions (log (snd (start w update (fresh_state c))))) \<longrightarrow>
      k = CONFIG_CACHE_KEY \<and> v = md5 w (resolved_config w) \<and>
      d = workDirectoryPath (resolved_config w) \<and>
      database_ok w \<and> configured_ok w Development \<and> configured_ok w Tests \<and>
      (\<exists>pre. log (snd (start w update (fresh_state c))) =
         pre @ [Par [configure_log w Development, configure_log w Tests],
                Call (SetCache k v d)] \<and>
         (\<forall>k' v' d'. SetCache k' v' d' \<notin> set (actions pre)))) \<and>
   (isl (fst (start w update (fresh_state c))) \<longrightarrow>
      cache (snd (start w update (fresh_state c))) = c) \<and>
   (cache (snd (start w update (fresh_state c))) \<noteq> c \<longrightarrow>
      fst (start w update (fresh_state c)) = Inr () \<and>
      cache (snd (start w update (fresh_state c))) =
        c((workDirectoryPath (resolved_config w), CONFIG_CACHE_KEY) \<mapsto>
          md5 w (resolved_config w)) \<and>
      SetCache CONFIG_CACHE_KEY (md5 w (resolved_config w))
          (workDirectoryPath (resolved_config w))
        \<in> set (actions (log (snd (start w update (fresh_state c)))))) \<and>
   (isl (fst (start w update (fresh_state c))) \<and>
    resolved_config w' = resolved_config w \<and> md5 w' = md5 w \<and>
    (update' \<or> c (workDirectoryPath (resolved_config w), CONFIG_CACHE_KEY) \<noteq>
       Some (md5 w (resolved_config w))) \<and>
    (\<forall>a n. a \<noteq> CheckDatabaseConnection \<and> (\<forall>e. a \<noteq> ConfigureWordPress e) \<longrightarrow>
       succeeds w' a n) \<longrightarrow>
      Call Stop \<in> set (log (snd (start w' update'
        (fresh_state (cache (snd (start w update (fresh_state c)))))))) \<and>
      Call SetupWordPressDirectories \<in> set (log (snd (start w' update'
        (fresh_state (cache (snd (start w update (fresh_state c)))))))) \<and>
      Call CheckDatabaseConnection \<in> set (log (snd (start w' update'
        (fresh_state (cache (snd (start w update (fresh_state c)))))))))"
proof -
  have again: "Call Stop \<in> set (log (snd (start w' update'
        (fresh_state (cache (snd (start w update (fresh_state c)))))))) \<and>
      Call SetupWordPressDirectories \<in> set (log (snd (start w' update'
        (fresh_state (cache (snd (start w update (fresh_state c)))))))) \<and>
      Call CheckDatabaseConnection \<in> set (log (snd (start w' update'
        (fresh_state (cache (snd (start w update (fresh_state c))))))))"
    if rej: "isl (fst (start w update (fresh_state c)))"
      and cfg: "resolved_config w' = resolved_config w" and h: "md5 w' = md5 w"
      and sh: "update' \<or> c (workDirectoryPath (resolved_config w), CONFIG_CACHE_KEY) \<noteq>
         Some (md5 w (resolved_config w))"
      and ok: "\<forall>a n. a \<noteq> CheckDatabaseConnection \<and> (\<forall>e. a \<noteq> ConfigureWordPress e) \<longrightarrow>
         succeeds w' a n"
  proof -
    have keep: "cache (snd (start w update (fresh_state c))) = c"
      using rejected_start_keeps_cache [OF rej] .
    have sh': "update' \<or> c (workDirectoryPath (resolved_config w'), CONFIG_CACHE_KEY) \<noteq>
        Some (md5 w' (resolved_config w'))"
      using sh cfg h by simp
    show ?thesis unfolding keep using start_again_provisions [where w' = w' and update' = update' and c = c, OF sh' ok] .
  qed
  show ?thesis
    using setCache_only_after_configuration [of _ _ _ w update c]
      rejected_start_keeps_cache [of w update c]
      cache_changed_only_by_setCache [of w update c] again
    by blast
qed

theorem checksum_cached_only_on_full_success_witness:
  "isl (fst failed_update) \<and>
   cache (snd failed_update) = cached_checksum \<and>
   Call Stop \<in> set (log (snd (start (world_of always config_default) True
     (fresh_state (cache (snd failed_update)))))) \<and>
   fst (start (world_of always config_default) False (fresh_state Map.empty)) = Inr () \<and>
   cache (snd (start (world_of always config_default) False (fresh_state Map.empty))) =
     cached_checksum \<and>
   database_ok (world_of always config_default) \<and>
   configured_ok (world_of always config_default) Development \<and>
   configured_ok (world_of always config_default) Tests"
proof -
  let ?f = "world_of never_configures config_default"
  let ?w = "world_of always config_default"
  have rej: "isl (fst (start ?f True (fresh_state cached_checksum)))"
    using failed_update_facts(1) by (simp add: failed_update_def)
  have ok: "\<forall>a n. a \<noteq> CheckDatabaseConnection \<and> (\<forall>e. a \<noteq> ConfigureWordPress e) \<longrightarrow>
      succeeds ?w a n"
    by (simp add: world_of_def always_def)
  have same: "resolved_config ?w = resolved_config ?f" "md5 ?w = md5 ?f"
    by (simp_all add: world_of_def)
  note failed = checksum_cached_only_on_full_success
    [where w = ?f and update = True and c = cached_checksum and w' = ?w and update' = True]
  have keep: "cache (snd (start ?f True (fresh_state cached_checksum))) = cached_checksum"
    using failed rej by blast
  have again: "Call Stop \<in> set (log (snd (start ?w True
      (fresh_state (cache (snd (start ?f True (fresh_state cached_checksum))))))))"
    using failed rej ok same by blast
  have pre_ok: "\<forall>a n. \<not> is_configuring a \<longrightarrow> succeeds ?w a n"
    by (simp add: world_of_def always_def)
  have sh: "shouldConfigureWp_of ?w False Map.empty"
    by (simp add: shouldConfigureWp_of_def)
  have pok: "phase_ok ?w (resolved_config ?w)"
    by (simp add: phase_ok_def writable_ok_def database_ok_def configured_ok_def
        world_of_def always_def)
  have ch: "cache (snd (start ?w False (fresh_state Map.empty))) = cached_checksum"
    using start_provisioning_run [OF pre_ok sh] pok
    by (auto simp add: cached_checksum_def world_of_def config_default_def config_of_def
        CONFIG_CACHE_KEY_def)
  have ne: "cache (snd (start ?w False (fresh_state Map.empty))) \<noteq> Map.empty"
    unfolding ch by (simp add: cached_checksum_def)
  note good = checksum_cached_only_on_full_success
    [where w = ?w and update = False and c = Map.empty and w' = ?w and update' = False]
  have res: "fst (start ?w False (fresh_state Map.empty)) = Inr ()"
    and inv: "SetCache CONFIG_CACHE_KEY (md5 ?w (resolved_config ?w))
          (workDirectoryPath (resolved_config ?w))
        \<in> set (actions (log (snd (start ?w False (fresh_state Map.empty)))))"
    using good ne by blast+
  have "database_ok ?w \<and> configured_ok ?w Development \<and> configured_ok ?w Tests"
    using good inv by blast
  then show ?thesis
    using rej keep again res ch by (simp add: failed_update_def)
qed

section \<open>The progress of a git download\<close>

lemma progress_values_append:
  "progress_values (xs @ ys) = progress_values xs @ progress_values ys"
  by (simp add: progress_values_def)

lemma progress_values_Cons:
  "progress_values (Call a # xs) = progress_values xs"
  "progress_values (Progress i v # xs) = v # progress_values xs"
  "progress_values (Par ls # xs) = progress_values xs"
  "progress_values [] = []"
  by (simp_all add: progress_values_def)

lemma progress_values_reports:
  "progress_values (map (\<lambda>(received, indexed, total). Progress i (f received indexed total)) reports) =
     map (\<lambda>(received, indexed, total). f received indexed total) reports"
  by (induction reports) (auto simp add: progress_values_def)

lemma call_log:
  "\<exists>r s'. call w a s = (r, s') \<and> log s' = log s @ [Call a] \<and>
     (\<forall>b. b \<noteq> a \<longrightarrow> calls s' b = calls s b)"
  by (simp add: call_def)

lemma call_with_transferProgress_log:
  "\<exists>r s'. call_with_transferProgress w i a s = (r, s') \<and>
     log s' = log s @ [Call a] @
       map (\<lambda>(received, indexed, total).
              Progress i (js_div (received + indexed) (total * 2)))
         (transferProgress w a (calls s a)) \<and>
     (\<forall>b. b \<noteq> a \<longrightarrow> calls s' b = calls s b)"
  by (simp add: call_with_transferProgress_def io_bind_def)


lemma downloadGitSource_progress:
  assumes "fst (downloadGitSource w source s) = Inr ()"
  shows "progress_values (log (snd (downloadGitSource w source s))) =
    progress_values (log s) @ [Num 0] @
    map (\<lambda>(received, indexed, total). js_div (received + indexed) (total * 2))
      (transferProgress w (GitClone (url source) (path source))
         (calls s (GitClone (url source) (path source)))) @
    map (\<lambda>(received, indexed, total). js_div (received + indexed) (total * 2))
      (transferProgress w (GitFetch (path source) (ref source))
         (calls s (GitFetch (path source) (ref source)))) @
    [Num 1]"
proof -
  let ?head = "io_bind (emit (Progress (basename source) (Num 0))) (\<lambda>_.
    io_bind (io_catch
               (call_with_transferProgress w (basename source)
                  (GitClone (url source) (path source)))
               (\<lambda>e. call w (GitOpen (path source)))) (\<lambda>_.
    io_bind (call w (GitGetRemote (path source))) (\<lambda>_.
    call_with_transferProgress w (basename source)
               (GitFetch (path source) (ref source)))))"
  let ?tail = "io_bind (call w (GitDisconnect (path source))) (\<lambda>_.
    io_bind (io_catch
               (io_bind
                  (io_catch (call w (GitGetReference (path source) (Some ''FETCH_HEAD'')))
                     (\<lambda>e. call w (GitGetReference (path source) (ref source))))
                  (\<lambda>_. call w (GitCheckoutRef (path source))))
               (\<lambda>e. call w (GitSetHeadDetached (path source) (ref source)))) (\<lambda>_.
    emit (Progress (basename source) (Num 1))))"
  have whole: "downloadGitSource w source = io_bind ?head (\<lambda>_. ?tail)"
    by (simp add: downloadGitSource_def io_bind_assoc)
  have tail: "progress_values (log (snd (?tail s'))) = progress_values (log s') @ [Num 1]"
    if "fst (?tail s') = Inr ()" for s'
    using that
    by (auto simp add: io_bind_def io_catch_def call_def emit_def
        progress_values_append progress_values_Cons
        split: sum.splits prod.splits if_splits)
  have head: "progress_values (log (snd (?head s))) =
    progress_values (log s) @ [Num 0] @
    map (\<lambda>(received, indexed, total). js_div (received + indexed) (total * 2))
      (transferProgress w (GitClone (url source) (path source))
         (calls s (GitClone (url source) (path source)))) @
    map (\<lambda>(received, indexed, total). js_div (received + indexed) (total * 2))
      (transferProgress w (GitFetch (path source) (ref source))
         (calls s (GitFetch (path source) (ref source))))"
    if "fst (?head s) = Inr ()"
    using that
    by (auto simp add: io_bind_def io_catch_def call_def emit_def
        call_with_transferProgress_def progress_values_append progress_values_Cons
        progress_values_reports
        split: sum.splits prod.splits if_splits)
  obtain r s' where h: "?head s = (r, s')" by (cases "?head s")
  from assms have ok: "r = Inr ()" and t: "fst (?tail s') = Inr ()"
    unfolding whole using h by (auto simp add: io_bind_def split: sum.splits)
  have "downloadGitSource w source s = ?tail s'"
    unfolding whole using h ok by (simp add: io_bind_def)
  then show ?thesis using tail [OF t] head h ok by simp
qed

text \<open>
  The quotient reported is within \<open>[0, 1]\<close> when the total is positive and neither count
  exceeds it.
\<close>

lemma js_div_in_unit_interval:
  assumes "0 < n" and "received \<le> n" and "indexed \<le> n"
  shows "in_unit_interval (js_div (received + indexed) (n * 2))"
proof -
  have "received + indexed \<le> n * 2" using assms by simp
  then have "(of_nat (received + indexed) :: rat) \<le> of_nat (n * 2)"
    by (simp only: of_nat_le_iff)
  moreover have "(0 :: rat) < of_nat (n * 2)" using assms by simp
  ultimately have "(of_nat (received + indexed) :: rat) / of_nat (n * 2) \<le> 1"
    by (simp add: divide_le_eq_1)
  then show ?thesis using assms by (simp add: js_div_def in_unit_interval_def)
qed

text \<open>
  C7: \<open>downloadGitSource\<close> calls \<open>onProgress\<close> first with 0 and last with 1, and in
  between with \<open>( received + indexed ) / ( total * 2 )\<close> for every report
  (\<open>downloadGitSource_progress\<close>), a value within \<open>[0, 1]\<close> when the total is positive
  (\<open>js_div_in_unit_interval\<close>).  Nothing clamps the quotient: for a report with a total
  of 0 the download succeeds and \<open>onProgress\<close> receives \<open>NaN\<close>, which is not "a number
  that ranges from 0 to 1", as the documentation of \<open>options.onProgress\<close> has it.
\<close>

theorem downloadGitSource_progress_not_a_number:
  "fst (downloadGitSource total_unknown git_core (fresh_state Map.empty)) = Inr () \<and>
   progress_values
     (log (snd (downloadGitSource total_unknown git_core (fresh_state Map.empty)))) =
     [Num 0, Num (1 / 4), Num 1, NaN, Num 1] \<and>
   \<not> list_all in_unit_interval
     (progress_values
        (log (snd (downloadGitSource total_unknown git_core (fresh_state Map.empty)))))"
proof -
  have ok: "fst (downloadGitSource total_unknown git_core (fresh_state Map.empty)) = Inr ()"
    by (simp add: downloadGitSource_def io_bind_def io_catch_def call_def emit_def
        call_with_transferProgress_def total_unknown_def world_of_def always_def
        fresh_state_def git_core_def)
  have "progress_values
     (log (snd (downloadGitSource total_unknown git_core (fresh_state Map.empty)))) =
     [Num 0, Num (1 / 4), Num 1, NaN, Num 1]"
    unfolding downloadGitSource_progress [OF ok]
    by (simp add: total_unknown_def world_of_def fresh_state_def git_core_def js_div_def
        progress_values_def)
  then show ?thesis using ok by (simp add: in_unit_interval_def)
qed

section \<open>The trace of \<open>downloadSources\<close>\<close>

text \<open>
  \<open>Promise.all\<close> starts every element of the array: the trace has one branch per
  element, the trace of that element run on a trace of its own.
\<close>

lemma run_all_branches:
  "length (snd (fst (run_all ms s))) = length ms \<and>
   (\<forall>i<length ms. \<exists>s'. log s' = [] \<and> snd (fst (run_all ms s)) ! i = log (snd ((ms ! i) s')))"
proof (induction ms arbitrary: s)
  case Nil
  show ?case by simp
next
  case (Cons m ms)
  let ?s0 = "s\<lparr>log := []\<rparr>"
  obtain r s1 where m: "m ?s0 = (r, s1)" by (cases "m ?s0")
  obtain rs ls s2 where r2: "run_all ms s1 = ((rs, ls), s2)"
    by (cases "run_all ms s1") auto
  have run: "run_all (m # ms) s = ((r # rs, log s1 # ls), s2)"
    using m r2 by simp
  have ih: "length ls = length ms \<and>
     (\<forall>i<length ms. \<exists>s'. log s' = [] \<and> ls ! i = log (snd ((ms ! i) s')))"
    using Cons.IH [of s1] r2 by simp
  have "\<exists>s'. log s' = [] \<and> (log s1 # ls) ! i = log (snd (((m # ms) ! i) s'))"
    if "i < length (m # ms)" for i
  proof (cases i)
    case 0
    have "log ?s0 = []" by simp
    moreover have "log s1 = log (snd (m ?s0))" using m by simp
    ultimately show ?thesis using 0 by (metis nth_Cons_0)
  next
    case (Suc j)
    then have "j < length ms" using that by simp
    then show ?thesis using ih Suc by simp
  qed
  then show ?case using run ih by simp
qed

lemma downloadSources_branches:
  "\<exists>ls. log (snd (downloadSources w config s)) = log s @ [Par ls] \<and>
     length ls = length (sources_to_download config) \<and>
     (\<forall>i<length ls. \<exists>s'. log s' = [] \<and>
        ls ! i = log (snd (downloadSource w (sources_to_download config ! i) s')))"
proof -
  let ?ms = "map (downloadSource w) (sources_to_download config)"
  obtain rs ls s2 where r: "run_all ?ms s = ((rs, ls), s2)"
    by (cases "run_all ?ms s") auto
  have lg: "log (snd (downloadSources w config s)) = log s @ [Par ls]"
    using r by (simp add: downloadSources_def Promise_all_def io_bind_def io_return_def
        split: sum.splits)
  from run_all_branches [of ?ms s] r
  have "length ls = length (sources_to_download config) \<and>
     (\<forall>i<length ls. \<exists>s'. log s' = [] \<and>
        ls ! i = log (snd (downloadSource w (sources_to_download config ! i) s')))"
    by simp
  then show ?thesis using lg by blast
qed

lemma acquisitions_append: "acquisitions (xs @ ys) = acquisitions xs @ acquisitions ys"
  by (simp add: acquisitions_def actions_append)

lemma frames_no_acquisition:
  assumes "frames w {a. \<not> is_acquisition a} m"
  shows "acquisitions (log (snd (m s))) = acquisitions (log s)"
proof -
  obtain r s1 where ms: "m s = (r, s1)" by (cases "m s")
  from framesD(3) [OF assms ms] obtain evs where
    "log s1 = log s @ evs" and "set (actions evs) \<subseteq> {a. \<not> is_acquisition a}"
    by blast
  then have "acquisitions (log s1) = acquisitions (log s)"
    by (auto simp add: acquisitions_def actions_append filter_empty_conv)
  then show ?thesis using ms by simp
qed

lemma acquisitions_bind:
  assumes m: "acquisitions (log (snd (m s))) = acquisitions (log s) @ as"
    and f: "\<And>x. frames w {a. \<not> is_acquisition a} (f x)"
  shows "acquisitions (log (snd (io_bind m f s))) = acquisitions (log s) @ as"
proof -
  obtain r s1 where ms: "m s = (r, s1)" by (cases "m s")
  show ?thesis
  proof (cases r)
    case (Inl e)
    then show ?thesis using ms m by (simp add: io_bind_def)
  next
    case (Inr x)
    then have "io_bind m f s = f x s1" using ms by (simp add: io_bind_def)
    then show ?thesis using frames_no_acquisition [OF f, of x s1] ms m by simp
  qed
qed

lemma actions_reports:
  "actions (map (\<lambda>(received, indexed, total). Progress i (g received indexed total)) reports) = []"
  by (induction reports) (auto simp add: actions_def)

lemma actions_map_Progress: "actions (map (Progress i) vs) = []"
  by (induction vs) (auto simp add: actions_def)

lemma acquisitions_downloadGitSource:
  "acquisitions (log (snd (downloadGitSource w source s))) =
     acquisitions (log s) @ [GitClone (url source) (path source)]"
proof -
  let ?pre = "io_bind (emit (Progress (basename source) (Num 0))) (\<lambda>_.
    io_catch
      (call_with_transferProgress w (basename source) (GitClone (url source) (path source)))
      (\<lambda>e. call w (GitOpen (path source))))"
  let ?rest = "\<lambda>_ :: unit.
    io_bind (call w (GitGetRemote (path source))) (\<lambda>_.
    io_bind (call_with_transferProgress w (basename source)
               (GitFetch (path source) (ref source))) (\<lambda>_.
    io_bind (call w (GitDisconnect (path source))) (\<lambda>_.
    io_bind (io_catch
               (io_bind
                  (io_catch (call w (GitGetReference (path source) (Some ''FETCH_HEAD'')))
                     (\<lambda>e. call w (GitGetReference (path source) (ref source))))
                  (\<lambda>_. call w (GitCheckoutRef (path source))))
               (\<lambda>e. call w (GitSetHeadDetached (path source) (ref source)))) (\<lambda>_.
    emit (Progress (basename source) (Num 1))))))"
  have whole: "downloadGitSource w source = io_bind ?pre ?rest"
    by (simp add: downloadGitSource_def io_bind_assoc)
  have pre: "acquisitions (log (snd (?pre s))) =
      acquisitions (log s) @ [GitClone (url source) (path source)]"
    by (simp add: io_bind_def io_catch_def emit_def call_def call_with_transferProgress_def
        acquisitions_def actions_append actions_Cons actions_Nil actions_reports)
  have rest: "frames w {a. \<not> is_acquisition a} (?rest x)" for x
    by (intro frames_bind frames_catch frames_call frames_emit_Progress
        frames_call_with_transferProgress) simp_all
  show ?thesis unfolding whole
    by (rule acquisitions_bind [where m = ?pre and f = ?rest and w = w, OF pre rest])
qed

lemma acquisitions_downloadZipSource:
  "acquisitions (log (snd (downloadZipSource w source s))) =
     acquisitions (log s) @ [GotDownload (url source) (path source @ ''.zip'')]"
proof -
  let ?zipName = "path source @ ''.zip''"
  let ?dirName = "path source @ ''.temp''"
  let ?pre = "io_bind (emit (Progress (basename source) (Num 0))) (\<lambda>_.
    call_with_downloadProgress w (basename source) (GotDownload (url source) ?zipName))"
  let ?rest = "\<lambda>_ :: unit.
     io_bind (call w (ExtractZip ?zipName ?dirName)) (\<lambda>_.
     io_bind (Promise_all
                [call w (Rimraf ?zipName),
                 io_bind (call w (Readdir ?dirName)) (\<lambda>_.
                 io_bind (Promise_all
                            (map (\<lambda>file. call w (CopyDir (path_join (node_env w) ?dirName file)
                                                   (path source)))
                               (readdir_result w ?dirName)))
                   (\<lambda>_. io_return ()))]) (\<lambda>_.
     io_bind (call w (Rimraf ?dirName)) (\<lambda>_.
     emit (Progress (basename source) (Num 1)))))"
  have whole: "downloadZipSource w source = io_bind ?pre ?rest"
    by (simp add: downloadZipSource_def Let_def io_bind_assoc)
  have pre: "acquisitions (log (snd (?pre s))) =
      acquisitions (log s) @ [GotDownload (url source) ?zipName]"
    by (simp add: io_bind_def emit_def call_with_downloadProgress_def
        acquisitions_def actions_append actions_Cons actions_Nil actions_map_Progress)
  have rest: "frames w {a. \<not> is_acquisition a} (?rest x)" for x
    by (intro frames_bind frames_catch frames_call frames_emit_Progress frames_Promise_all
        frames_return)
      (auto intro!: frames_bind frames_call frames_Promise_all frames_return)
  show ?thesis unfolding whole
    by (rule acquisitions_bind [where m = ?pre and f = ?rest and w = w, OF pre rest])
qed

lemma acquisitions_downloadSource:
  "acquisitions (log (snd (downloadSource w source s))) =
     acquisitions (log s) @ acquisition_of source"
  by (simp add: downloadSource_def acquisition_of_def acquisitions_downloadGitSource
      acquisitions_downloadZipSource io_return_def)

text \<open>
  \<open>downloadSources\<close> maps \<open>downloadSource\<close> over \<open>sources\<close>: one branch per source, in
  order, and in it the clone or the download of that source.
\<close>

lemma downloadSources_trace:
  "\<exists>ls. log (snd (downloadSources w config s)) = log s @ [Par ls] \<and>
     length ls = length (sources_to_download config) \<and>
     (\<forall>i<length ls. \<exists>s'. log s' = [] \<and>
        ls ! i = log (snd (downloadSource w (sources_to_download config ! i) s'))) \<and>
     acquisitions [Par ls] = concat (map acquisition_of (sources_to_download config))"
proof -
  from downloadSources_branches [of w config s] obtain ls where
    lg: "log (snd (downloadSources w config s)) = log s @ [Par ls]"
    and len: "length ls = length (sources_to_download config)"
    and br: "\<forall>i<length ls. \<exists>s'. log s' = [] \<and>
        ls ! i = log (snd (downloadSource w (sources_to_download config ! i) s'))"
    by blast
  have "map acquisitions ls = map acquisition_of (sources_to_download config)"
  proof (rule nth_equalityI)
    show "length (map acquisitions ls) = length (map acquisition_of (sources_to_download config))"
      using len by simp
  next
    fix i assume "i < length (map acquisitions ls)"
    then have i: "i < length ls" by simp
    with br obtain s' :: state where "log s' = []"
      and "ls ! i = log (snd (downloadSource w (sources_to_download config ! i) s'))"
      by blast
    then have "acquisitions (ls ! i) = acquisition_of (sources_to_download config ! i)"
      using acquisitions_downloadSource [of w "sources_to_download config ! i" s']
      by (simp add: acquisitions_def actions_Nil)
    then show "map acquisitions ls ! i = map acquisition_of (sources_to_download config) ! i"
      using i len by simp
  qed
  moreover have "acquisitions [Par ls] = concat (map acquisitions ls)"
    by (induction ls) (simp_all add: acquisitions_def actions_def)
  ultimately have "acquisitions [Par ls] = concat (map acquisition_of (sources_to_download config))"
    by simp
  then show ?thesis using lg len br by blast
qed



text \<open>
  Without that property the paths can coincide: the two checkouts of
  \<open>config_same_path\<close> have different urls and one path, and both are in \<open>sources\<close>.
\<close>

lemma example_same_path_needs_resolver:
  "\<not> paths_determine_urls config_same_path \<and>
   \<not> distinct (map path (sources_to_download config_same_path))"
proof -
  have "\<not> distinct (map path (sources_to_download config_same_path))"
    by (simp add: example_sources_same_path gutenberg_a_def gutenberg_b_def)
  moreover have "\<not> paths_determine_urls config_same_path"
    by (simp add: paths_determine_urls_def all_descriptors_def
        offered_sources_def env_sources_def somes_def config_same_path_def config_of_def
        service_config_def Object_values_def gutenberg_a_def gutenberg_b_def)
  ultimately show ?thesis by simp
qed




text \<open>
  C9: deduplication is keyed by the url alone.  \<open>downloadSources\<close> runs \<open>downloadSource\<close>
  once for each element of \<open>sources\<close> and on nothing else, and an element of \<open>sources\<close> is
  the first descriptor offered with its url.  So of two descriptors with one url and
  different refs, where the earlier is the first with that url, the later is never
  passed, and nothing is cloned or downloaded to its path when that is another path;
  the earlier is passed and acquired (when the url is a non-empty string that is not an
  inherited property name).  A descriptor without a url is never passed.
\<close>

theorem downloadSources_keyed_by_url:
  "\<exists>ls. log (snd (downloadSources w config s)) = log s @ [Par ls] \<and>
     length ls = length (sources_to_download config) \<and>
     (\<forall>i<length ls. \<exists>s'. log s' = [] \<and>
        ls ! i = log (snd (downloadSource w (sources_to_download config ! i) s'))) \<and>
     (\<forall>source\<in>set (sources_to_download config).
        find (\<lambda>d. url d = url source) (all_descriptors config) = Some source) \<and>
     (\<forall>xs d1 ys d2 zs u.
        all_descriptors config = xs @ d1 # ys @ d2 # zs \<and> (\<forall>x\<in>set xs. url x \<noteq> Some u) \<and>
        url d1 = Some u \<and> url d2 = Some u \<and> ref d2 \<noteq> ref d1 \<longrightarrow>
          d2 \<notin> set (sources_to_download config) \<and>
          (path d2 \<noteq> path d1 \<longrightarrow>
             GitClone (Some u) (path d2) \<notin> set (acquisitions [Par ls]) \<and>
             GotDownload (Some u) (path d2 @ ''.zip'') \<notin> set (acquisitions [Par ls])) \<and>
          (fresh_key u \<longrightarrow>
             d1 \<in> set (sources_to_download config) \<and>
             set (acquisition_of d1) \<subseteq> set (acquisitions [Par ls]))) \<and>
     (\<forall>d. url d = None \<longrightarrow> d \<notin> set (sources_to_download config))"
proof -
  let ?srcs = "sources_to_download config"
  from downloadSources_trace [of w config s] obtain ls where
    lg: "log (snd (downloadSources w config s)) = log s @ [Par ls]"
    and len: "length ls = length ?srcs"
    and br: "\<forall>i<length ls. \<exists>s'. log s' = [] \<and>
        ls ! i = log (snd (downloadSource w (?srcs ! i) s'))"
    and acq: "acquisitions [Par ls] = concat (map acquisition_of ?srcs)"
    by blast
  note k = sources_first_with_url [of config]
  have first: "\<forall>source\<in>set ?srcs.
      find (\<lambda>d. url d = url source) (all_descriptors config) = Some source"
    using k by blast
  have nourl: "\<forall>d. url d = None \<longrightarrow> d \<notin> set ?srcs" using k by blast
  have two: "d2 \<notin> set ?srcs \<and>
          (path d2 \<noteq> path d1 \<longrightarrow>
             GitClone (Some u) (path d2) \<notin> set (acquisitions [Par ls]) \<and>
             GotDownload (Some u) (path d2 @ ''.zip'') \<notin> set (acquisitions [Par ls])) \<and>
          (fresh_key u \<longrightarrow>
             d1 \<in> set ?srcs \<and> set (acquisition_of d1) \<subseteq> set (acquisitions [Par ls]))"
    if a: "all_descriptors config = xs @ d1 # ys @ d2 # zs \<and> (\<forall>x\<in>set xs. url x \<noteq> Some u) \<and>
        url d1 = Some u \<and> url d2 = Some u \<and> ref d2 \<noteq> ref d1"
    for xs d1 ys d2 zs u
  proof -
    from k a have no: "d2 \<notin> set ?srcs"
      and yes: "fresh_key u \<longrightarrow> d1 \<in> set ?srcs"
      by blast+
    from a have "find (\<lambda>d. url d = Some u) xs = None" by (simp add: find_None_iff)
    then have f1: "find (\<lambda>d. url d = Some u) (all_descriptors config) = Some d1"
      using a by (simp add: find_append_None)
    have only: "path x = path d1" if "x \<in> set ?srcs" and "url x = Some u" for x
    proof -
      from first that have "find (\<lambda>d. url d = Some u) (all_descriptors config) = Some x"
        by auto
      then show ?thesis using f1 by simp
    qed
    have away: "GitClone (Some u) (path d2) \<notin> set (acquisitions [Par ls]) \<and>
        GotDownload (Some u) (path d2 @ ''.zip'') \<notin> set (acquisitions [Par ls])"
      if "path d2 \<noteq> path d1"
      unfolding acq using only that
      by (auto simp add: acquisition_of_def split: if_splits)
    have acquired: "set (acquisition_of d1) \<subseteq> set (acquisitions [Par ls])"
      if "d1 \<in> set ?srcs"
      unfolding acq using that by auto
    from no yes away acquired show ?thesis by blast
  qed
  from lg len br first two nourl show ?thesis by blast
qed

theorem downloadSources_keyed_by_url_witness:
  "all_descriptors config_two_refs =
     [local_plugin] @ gutenberg_a # [local_plugin] @ gutenberg_a_v2 # [] \<and>
   url gutenberg_a = url gutenberg_a_v2 \<and> ref gutenberg_a_v2 \<noteq> ref gutenberg_a \<and>
   url local_plugin = None \<and>
   gutenberg_a_v2 \<notin> set (sources_to_download config_two_refs) \<and>
   gutenberg_a \<in> set (sources_to_download config_two_refs) \<and>
   local_plugin \<notin> set (sources_to_download config_two_refs) \<and>
   (\<exists>ls. log (snd (downloadSources (world_of always config_two_refs) config_two_refs
              (fresh_state Map.empty))) = [Par ls] \<and>
      length ls = 1 \<and>
      GitClone (Some ''https://github.com/a/gutenberg.git'') ''/w/gutenberg-v2''
        \<notin> set (acquisitions [Par ls]) \<and>
      GitClone (Some ''https://github.com/a/gutenberg.git'') ''/w/gutenberg''
        \<in> set (acquisitions [Par ls]))"
proof -
  let ?u = "''https://github.com/a/gutenberg.git''"
  let ?srcs = "sources_to_download config_two_refs"
  have shape: "all_descriptors config_two_refs =
      [local_plugin] @ gutenberg_a # [local_plugin] @ gutenberg_a_v2 # []"
    by (simp add: example_descriptors_two_refs)
  have before: "\<forall>x\<in>set [local_plugin]. url x \<noteq> Some ?u"
    by (simp add: local_plugin_def)
  have u1: "url gutenberg_a = Some ?u" by (simp add: gutenberg_a_def)
  have u2: "url gutenberg_a_v2 = Some ?u" by (simp add: gutenberg_a_v2_def)
  have r: "ref gutenberg_a_v2 \<noteq> ref gutenberg_a"
    by (simp add: gutenberg_a_def gutenberg_a_v2_def)
  have p: "path gutenberg_a_v2 \<noteq> path gutenberg_a"
    by (simp add: gutenberg_a_def gutenberg_a_v2_def)
  have k: "fresh_key ?u" by (simp add: fresh_key_def Object_prototype_keys_def)
  have n: "url local_plugin = None" by (simp add: local_plugin_def)
  from downloadSources_keyed_by_url
    [of "world_of always config_two_refs" config_two_refs "fresh_state Map.empty"]
  obtain ls where
    lg: "log (snd (downloadSources (world_of always config_two_refs) config_two_refs
              (fresh_state Map.empty))) = log (fresh_state Map.empty) @ [Par ls]"
    and len: "length ls = length ?srcs"
    and two: "\<forall>xs d1 ys d2 zs u.
        all_descriptors config_two_refs = xs @ d1 # ys @ d2 # zs \<and>
        (\<forall>x\<in>set xs. url x \<noteq> Some u) \<and>
        url d1 = Some u \<and> url d2 = Some u \<and> ref d2 \<noteq> ref d1 \<longrightarrow>
          d2 \<notin> set ?srcs \<and>
          (path d2 \<noteq> path d1 \<longrightarrow>
             GitClone (Some u) (path d2) \<notin> set (acquisitions [Par ls]) \<and>
             GotDownload (Some u) (path d2 @ ''.zip'') \<notin> set (acquisitions [Par ls])) \<and>
          (fresh_key u \<longrightarrow>
             d1 \<in> set ?srcs \<and> set (acquisition_of d1) \<subseteq> set (acquisitions [Par ls]))"
    and nourl: "\<forall>d. url d = None \<longrightarrow> d \<notin> set ?srcs"
    by blast
  from two shape before u1 u2 r p k
  have a: "gutenberg_a_v2 \<notin> set ?srcs"
    and b: "GitClone (Some ?u) (path gutenberg_a_v2) \<notin> set (acquisitions [Par ls])"
    and c: "gutenberg_a \<in> set ?srcs"
    and d: "set (acquisition_of gutenberg_a) \<subseteq> set (acquisitions [Par ls])"
    by blast+
  have b': "GitClone (Some ?u) ''/w/gutenberg-v2'' \<notin> set (acquisitions [Par ls])"
    using b by (simp add: gutenberg_a_v2_def)
  have d': "GitClone (Some ?u) ''/w/gutenberg'' \<in> set (acquisitions [Par ls])"
    using d by (simp add: acquisition_of_def gutenberg_a_def)
  have e: "local_plugin \<notin> set ?srcs" using nourl n by blast
  have 1: "log (snd (downloadSources (world_of always config_two_refs) config_two_refs
              (fresh_state Map.empty))) = [Par ls]"
    using lg by (simp add: fresh_state_simps)
  have 2: "length ls = 1" using len by (simp add: example_sources_two_refs)
  from shape u1 u2 r n a c e 1 2 b' d' show ?thesis by auto
qed

section \<open>The mounts of a shared local core\<close>











section \<open>The port bindings\<close>












text \<open>
  C10: the named volumes \<open>wordpress\<close> and \<open>tests-wordpress\<close> are declared exactly when
  the top-level \<open>config.coreSource\<close> is null (the test is \<open>! config.coreSource\<close>, so an
  absent property counts as null).  The core mount of the development service is the
  named volume \<open>wordpress\<close> exactly when the development environment's own
  \<open>coreSource\<close> is null, whatever the top-level one is, and the core mount of the tests
  service is the named volume \<open>tests-wordpress\<close> when the tests environment's own
  \<open>coreSource\<close> is null.  The two can disagree, both ways: a declared volume that the
  service does not mount, and a mounted named volume that is not declared.
\<close>

theorem named_volumes_follow_top_level_coreSource:
  "(\<forall>c. buildDockerComposeConfig nd config = Some c \<longrightarrow>
      (''wordpress'' \<in> set (top_volumes c)) =
         (topCoreSource config = Null \<or> topCoreSource config = Undefined) \<and>
      (''tests-wordpress'' \<in> set (top_volumes c)) =
         (topCoreSource config = Null \<or> topCoreSource config = Undefined) \<and>
      hd (volumes (wordpress (services c))) =
         (case coreSource (development (env config)) of
            Some s \<Rightarrow> path s | None \<Rightarrow> ''wordpress'') @ '':/var/www/html'' \<and>
      (coreSource (tests (env config)) = None \<longrightarrow>
         hd (volumes (tests_wordpress (services c))) = ''tests-wordpress:/var/www/html'')) \<and>
   (\<exists>c. buildDockerComposeConfig node_example config_dev_override = Some c \<and>
      ''wordpress'' \<in> set (top_volumes c) \<and>
      hd (volumes (wordpress (services c))) = ''/home/me/wp:/var/www/html'') \<and>
   (\<exists>c. buildDockerComposeConfig node_example config_top_only = Some c \<and>
      ''wordpress'' \<notin> set (top_volumes c) \<and>
      hd (volumes (wordpress (services c))) = ''wordpress:/var/www/html'')"
proof -
  have 1: "(''wordpress'' \<in> set (top_volumes c)) =
         (topCoreSource config = Null \<or> topCoreSource config = Undefined) \<and>
      (''tests-wordpress'' \<in> set (top_volumes c)) =
         (topCoreSource config = Null \<or> topCoreSource config = Undefined) \<and>
      hd (volumes (wordpress (services c))) =
         (case coreSource (development (env config)) of
            Some s \<Rightarrow> path s | None \<Rightarrow> ''wordpress'') @ '':/var/www/html'' \<and>
      (coreSource (tests (env config)) = None \<longrightarrow>
         hd (volumes (tests_wordpress (services c))) = ''tests-wordpress:/var/www/html'')"
    if c: "buildDockerComposeConfig nd config = Some c" for c
  proof -
    have t: "hd (volumes (tests_wordpress (services c))) = ''tests-wordpress:/var/www/html''"
      if n: "coreSource (tests (env config)) = None"
    proof -
      have "testsMounts_of nd config = Some (getMounts (tests (env config)) ''tests-wordpress'')"
        using n by (simp add: testsMounts_of_def hasSameCoreSource_pair split: option.splits)
      then show ?thesis
        using build_tests_volumes [OF c] n by (simp add: getMounts_def Let_def)
    qed
    show ?thesis
      using build_top_volumes [OF c] build_development_volumes [OF c] t
      by (simp add: getMounts_def Let_def)
  qed
  have 2: "\<exists>c. buildDockerComposeConfig node_example config_dev_override = Some c \<and>
      ''wordpress'' \<in> set (top_volumes c) \<and>
      hd (volumes (wordpress (services c))) = ''/home/me/wp:/var/www/html''"
    by (simp add: buildDockerComposeConfig_def testsMounts_of_def hasSameCoreSource_pair
        getMounts_def Let_def config_dev_override_def config_of_def service_config_def
        local_core_def)
  have 3: "\<exists>c. buildDockerComposeConfig node_example config_top_only = Some c \<and>
      ''wordpress'' \<notin> set (top_volumes c) \<and>
      hd (volumes (wordpress (services c))) = ''wordpress:/var/www/html''"
    by (simp add: buildDockerComposeConfig_def testsMounts_of_def hasSameCoreSource_pair
        getMounts_def Let_def config_top_only_def config_of_def service_config_def)
  from 1 2 3 show ?thesis by blast
qed

theorem named_volumes_follow_top_level_coreSource_witness:
  "buildDockerComposeConfig node_example config_shared_local_core \<noteq> None \<and>
   topCoreSource config_shared_local_core = Val local_core \<and>
   ''wordpress'' \<notin> set (top_volumes
     (the (buildDockerComposeConfig node_example config_shared_local_core))) \<and>
   ''tests-wordpress'' \<notin> set (top_volumes
     (the (buildDockerComposeConfig node_example config_shared_local_core))) \<and>
   hd (volumes (wordpress (services
     (the (buildDockerComposeConfig node_example config_shared_local_core))))) =
     ''/home/me/wp:/var/www/html''"
proof -
  obtain c where c: "buildDockerComposeConfig node_example config_shared_local_core = Some c"
    using example_build_shared_local_core by blast
  have t: "topCoreSource config_shared_local_core = Val local_core"
    by (simp add: config_shared_local_core_def config_of_def)
  from named_volumes_follow_top_level_coreSource [of node_example config_shared_local_core] c
  have "(''wordpress'' \<in> set (top_volumes c)) =
         (topCoreSource config_shared_local_core = Null \<or>
          topCoreSource config_shared_local_core = Undefined) \<and>
      (''tests-wordpress'' \<in> set (top_volumes c)) =
         (topCoreSource config_shared_local_core = Null \<or>
          topCoreSource config_shared_local_core = Undefined) \<and>
      hd (volumes (wordpress (services c))) =
         (case coreSource (development (env config_shared_local_core)) of
            Some s \<Rightarrow> path s | None \<Rightarrow> ''wordpress'') @ '':/var/www/html''"
    by blast
  then show ?thesis using c t
    by (simp add: config_shared_local_core_def config_of_def service_config_def local_core_def)
qed

end
